theory Spec2Isabelle
  imports Main
begin

section \<open>Python strings\<close>

text \<open>
  A Python \<open>str\<close> is a sequence of Unicode code points; \<open>len\<close> counts code points.
  The model is a list of code points, so that the ellipsis U+2026 used by the snippet
  selector is one character as it is in Python.
\<close>

type_synonym pystr = "nat list"

definition py :: "string \<Rightarrow> pystr" where
  "py s = map of_char s"

definition SP :: nat where "SP = 32"
definition NL :: nat where "NL = 10"
definition ELLIPSIS :: nat where "ELLIPSIS = 8230"

text \<open>
  \<open>str.isspace\<close> for one character, as CPython's \<open>_PyUnicode_IsWhitespace\<close> lists it.
  \<open>str.strip()\<close> and \<open>str.split()\<close> without argument use this predicate.
\<close>

definition py_isspace :: "nat \<Rightarrow> bool" where
  "py_isspace c \<longleftrightarrow>
     (9 \<le> c \<and> c \<le> 13) \<or> (28 \<le> c \<and> c \<le> 32) \<or> c = 133 \<or> c = 160 \<or> c = 5760 \<or>
     (8192 \<le> c \<and> c \<le> 8202) \<or> c = 8232 \<or> c = 8233 \<or> c = 8239 \<or> c = 8287 \<or> c = 12288"

definition py_strip :: "pystr \<Rightarrow> pystr" where
  "py_strip s = rev (dropWhile py_isspace (rev (dropWhile py_isspace s)))"

text \<open>\<open>s.strip(ch)\<close> for a one-character argument.\<close>

definition py_strip_char :: "nat \<Rightarrow> pystr \<Rightarrow> pystr" where
  "py_strip_char ch s = rev (dropWhile (\<lambda>c. c = ch) (rev (dropWhile (\<lambda>c. c = ch) s)))"

text \<open>
  \<open>s.split()\<close>: the maximal runs of non-whitespace characters, in order. The first
  argument is the token being read.
\<close>

fun py_split_acc :: "pystr \<Rightarrow> pystr \<Rightarrow> pystr list" where
  "py_split_acc cur [] = (if cur = [] then [] else [cur])"
| "py_split_acc cur (c # cs) =
     (if py_isspace c then (if cur = [] then py_split_acc [] cs else cur # py_split_acc [] cs)
      else py_split_acc (cur @ [c]) cs)"

definition py_split :: "pystr \<Rightarrow> pystr list" where
  "py_split s = py_split_acc [] s"

text \<open>\<open>sep.join(parts)\<close>.\<close>

fun py_join :: "pystr \<Rightarrow> pystr list \<Rightarrow> pystr" where
  "py_join sep [] = []"
| "py_join sep [p] = p"
| "py_join sep (p # q # ps) = p @ sep @ py_join sep (q # ps)"

text \<open>\<open>s.replace(a, b)\<close> for one-character \<open>a\<close> and \<open>b\<close>.\<close>

definition py_replace_char :: "nat \<Rightarrow> nat \<Rightarrow> pystr \<Rightarrow> pystr" where
  "py_replace_char a b s = map (\<lambda>c. if c = a then b else c) s"

text \<open>
  \<open>s.rsplit(" ", 1)[0]\<close>: the part before the last space, or all of \<open>s\<close> when it holds
  no space.
\<close>

definition rsplit_space_first :: "pystr \<Rightarrow> pystr" where
  "rsplit_space_first s =
     (if SP \<in> set s then rev (tl (dropWhile (\<lambda>c. c \<noteq> SP) (rev s))) else s)"

text \<open>\<open>needle in hay\<close> and \<open>s.startswith(p)\<close>.\<close>

fun py_startswith :: "pystr \<Rightarrow> pystr \<Rightarrow> bool" where
  "py_startswith s [] = True"
| "py_startswith [] (p # ps) = False"
| "py_startswith (c # cs) (p # ps) = (c = p \<and> py_startswith cs ps)"

fun py_contains :: "pystr \<Rightarrow> pystr \<Rightarrow> bool" where
  "py_contains needle [] = (needle = [])"
| "py_contains needle (c # cs) = (py_startswith (c # cs) needle \<or> py_contains needle cs)"

section \<open>Regular expressions and the library\<close>

text \<open>
  The patterns of the program, transcribed as syntax trees. A non-capturing group
  \<open>(?:...)\<close> is the nesting of the tree; \<open>Grp\<close> is a capturing group.
\<close>

datatype cset_item = Ch char | Cp nat | ClsSpace

datatype rx =
    Lit string
  | AnyChar
  | Space
  | Digit
  | WordB
  | OneOf "cset_item list"
  | NoneOf "cset_item list"
  | Seq "rx list"
  | Alt "rx list"
  | Opt rx
  | Star rx
  | Plus rx
  | StarLazy rx
  | Rep nat nat rx
  | Grp rx
  | BackRef nat
  | Behind rx

datatype re_flag = IGNORECASE | DOTALL

datatype regex = Compile rx "re_flag list"

text \<open>
  What the program takes from Python's standard library on strings. The matching engine
  of \<open>re\<close>, the entity table of \<open>html.unescape\<close>, Unicode case mapping and URL parsing are
  not code of this repository: they are a parameter of every function below, and every
  theorem holds for each library.
  \<^item> \<open>re_findall p s\<close>: the successive non-overlapping matches of \<open>p\<close> in \<open>s\<close>, for a
    pattern with at most one group (Python returns a list of strings: the group, or the
    whole match when \<open>p\<close> has no group); \<open>re_findall2\<close> for a pattern with two groups
    (a list of pairs);
  \<^item> \<open>re_search p s\<close>: whether \<open>p\<close> matches somewhere in \<open>s\<close>;
  \<^item> \<open>re_sub p repl s\<close> and \<open>re_split p s\<close> as in \<open>re\<close>;
  \<^item> \<open>urljoin base href\<close>: the joined URL, or \<open>None\<close> when \<open>urljoin\<close> raises
    \<open>ValueError\<close> (as it does on \<open>http://[\<close>);
  \<^item> \<open>netloc url\<close>: \<open>urlparse(url).netloc\<close>, or \<open>None\<close> when \<open>urlparse\<close> raises;
  \<^item> \<open>cache_digest prompt model\<close>: the SHA-256 hex digest of the canonical JSON of
    \<open>{"prompt": prompt, "model": model}\<close>.
\<close>

record pylib =
  re_findall :: "regex \<Rightarrow> pystr \<Rightarrow> pystr list"
  re_findall2 :: "regex \<Rightarrow> pystr \<Rightarrow> (pystr \<times> pystr) list"
  re_search :: "regex \<Rightarrow> pystr \<Rightarrow> bool"
  re_sub :: "regex \<Rightarrow> pystr \<Rightarrow> pystr \<Rightarrow> pystr"
  re_split :: "regex \<Rightarrow> pystr \<Rightarrow> pystr list"
  unescape :: "pystr \<Rightarrow> pystr"
  str_upper :: "pystr \<Rightarrow> pystr"
  str_lower :: "pystr \<Rightarrow> pystr"
  urljoin :: "pystr \<Rightarrow> pystr \<Rightarrow> pystr option"
  netloc :: "pystr \<Rightarrow> pystr option"
  cache_digest :: "pystr \<Rightarrow> pystr \<Rightarrow> pystr"

text \<open>
  The exceptions that the functions below raise or let pass; \<open>GeminiRequestFailed\<close> is the
  \<open>Exception\<close> that \<open>ask_gemini\<close> raises after its last attempt.
\<close>

datatype exn =
  ValueError | RuntimeError | TypeError | IndexError | AttributeError | GeminiRequestFailed

section \<open>The signal table\<close>

type_synonym signal = "string \<times> regex \<times> int"

definition roads :: "rx" where
  "roads = Alt [Lit ''5'', Lit ''10'', Lit ''60'', Lit ''91'', Lit ''101'', Lit ''105'',
                Lit ''110'', Lit ''210'', Lit ''405'']"

definition PATTERNS :: "signal list" where
  "PATTERNS = [
    (''pursuit'', Compile (Seq [WordB, Lit ''pursuit'', Opt (Grp (Lit ''s'')), WordB]) [IGNORECASE], 6),
    (''police chase'',
       Compile (Seq [WordB, Lit ''police'', Plus Space, Lit ''chase'', Opt (Grp (Lit ''s'')), WordB])
         [IGNORECASE], 7),
    (''car chase'',
       Compile (Seq [WordB, Lit ''car'', Plus Space, Lit ''chase'', Opt (Grp (Lit ''s'')), WordB])
         [IGNORECASE], 6),
    (''vehicle chase'',
       Compile (Seq [WordB, Lit ''vehicle'', Plus Space, Lit ''chase'', Opt (Grp (Lit ''s'')), WordB])
         [IGNORECASE], 5),
    (''high-speed chase'',
       Compile (Seq [WordB, Lit ''high'', Opt (OneOf [Ch CHR ''-'', ClsSpace]), Lit ''speed'',
                     Plus Space, Lit ''chase'', WordB]) [IGNORECASE], 8),
    (''PIT maneuver'',
       Compile (Seq [WordB, Grp (Alt [Lit ''pit'', Lit ''p.i.t.'']), Plus Space, Lit ''maneuver'',
                     WordB]) [IGNORECASE], 8),
    (''spike strip'',
       Compile (Seq [WordB, Lit ''spike'', Plus Space, Lit ''strip'', Opt (Grp (Lit ''s'')), WordB])
         [IGNORECASE], 5),
    (''pursuit ends'',
       Compile (Seq [WordB, Lit ''pursuit'', Plus Space, Lit ''end'',
                     Opt (Grp (Alt [Lit ''s'', Lit ''ed''])), WordB]) [IGNORECASE], 5),
    (''termination of pursuit'',
       Compile (Seq [WordB, Lit ''termination'', Plus Space, Lit ''of'', Plus Space,
                     Lit ''pursuit'', WordB]) [IGNORECASE], 6),
    (''suspect + pursuit'',
       Compile (Alt [Seq [WordB, Lit ''suspect'', WordB, StarLazy AnyChar, WordB, Lit ''pursuit'', WordB],
                     Seq [WordB, Lit ''pursuit'', WordB, StarLazy AnyChar, WordB, Lit ''suspect'', WordB]])
         [IGNORECASE, DOTALL], 5),
    (''evading'',
       Compile (Seq [WordB, Grp (Alt [Lit ''fleeing'', Lit ''evading'', Lit ''eluding'']), WordB])
         [IGNORECASE], 3),
    (''wrong-way driver'',
       Compile (Seq [WordB, Lit ''wrong'', Opt (OneOf [Ch CHR ''-'', ClsSpace]), Lit ''way'',
                     Plus Space, Lit ''driver'', WordB]) [IGNORECASE], 4),
    (''freeway/roads'',
       Compile (Alt [
           Seq [WordB, Seq [Lit ''I'', Opt (OneOf [Ch CHR ''-'', ClsSpace]), roads], WordB],
           Seq [WordB, Alt [Lit ''SR'', Lit ''US'', Lit ''CA''], Opt (OneOf [Ch CHR ''-'', ClsSpace]),
                roads, WordB],
           Seq [WordB, Alt [Lit ''Freeway'', Lit ''Highway'', Lit ''Hwy'',
                            Seq [Rep 2 3 Digit, Star Space, Lit ''Freeway'']], WordB]])
         [IGNORECASE], 2),
    (''news chopper'',
       Compile (Alt [Seq [WordB, Lit ''news'', Opt Space, Lit ''chopper'', WordB],
                     Seq [WordB, Lit ''sky'', Opt Space, Lit ''fox'', WordB],
                     Seq [WordB, Lit ''sky'', Opt Space, Lit ''5'', WordB]]) [IGNORECASE], 3),
    (''live pursuit'',
       Compile (Seq [WordB, Lit ''live'', Plus Space, Lit ''pursuit'', WordB]) [IGNORECASE], 7),
    (''LAPD/CHP pursuit'',
       Compile (Seq [WordB, Grp (Alt [Lit ''LAPD'', Lit ''CHP'']), WordB, Star AnyChar, WordB,
                     Lit ''pursuit'', WordB]) [IGNORECASE], 6)
  ]"

definition MIN_SCORE_TO_LOG :: int where
  "MIN_SCORE_TO_LOG = 6"

definition CORE_NAMES :: "string list" where
  "CORE_NAMES = [''pursuit'', ''police chase'', ''car chase'', ''vehicle chase'',
     ''high-speed chase'', ''PIT maneuver'', ''spike strip'', ''pursuit ends'',
     ''termination of pursuit'', ''live pursuit'', ''LAPD/CHP pursuit'']"

definition CORE_PATTERNS :: "regex list" where
  "CORE_PATTERNS = map (\<lambda>(name, pat, w). pat) (filter (\<lambda>(name, pat, w). name \<in> set CORE_NAMES) PATTERNS)"

section \<open>Pattern scorer\<close>

type_synonym hits = "string \<rightharpoonup> int"

text \<open>
  The loop of \<open>score_text_block\<close> over a signal table, from the running
  \<open>(score, hits)\<close>.
\<close>

fun score_loop :: "pylib \<Rightarrow> signal list \<Rightarrow> pystr \<Rightarrow> int \<times> hits \<Rightarrow> int \<times> hits" where
  "score_loop L [] txt acc = acc"
| "score_loop L ((name, pat, weight) # rest) txt (score, hits) =
     (let count = int (length (re_findall L pat txt)) in
      if count \<noteq> 0
      then score_loop L rest txt
             (score + count * weight,
              hits(name \<mapsto> (case hits name of None \<Rightarrow> 0 | Some c \<Rightarrow> c) + count))
      else score_loop L rest txt (score, hits))"

definition score_text_block :: "pylib \<Rightarrow> pystr \<Rightarrow> int \<times> hits" where
  "score_text_block L txt = score_loop L PATTERNS txt (0, Map.empty)"

section \<open>Text extractor\<close>

definition BLOCKED_ELEMENT_RE :: regex where
  "BLOCKED_ELEMENT_RE =
     Compile (Seq [Lit ''<'',
                   Grp (Alt [Lit ''script'', Lit ''style'', Lit ''noscript'', Lit ''iframe'',
                             Lit ''svg'', Lit ''meta'', Lit ''link'']),
                   Star (NoneOf [Ch CHR ''>'']), Lit ''>'', StarLazy AnyChar, Lit ''</'',
                   BackRef 1, Lit ''>'']) [IGNORECASE, DOTALL]"

definition BR_RE :: regex where
  "BR_RE = Compile (Seq [Lit ''<br'', Star Space, Opt (Lit ''/''), Lit ''>'']) [IGNORECASE, DOTALL]"

definition ANY_TAG_RE :: regex where
  "ANY_TAG_RE = Compile (Seq [Lit ''<'', Plus (NoneOf [Ch CHR ''>'']), Lit ''>'']) [IGNORECASE, DOTALL]"

definition WHITESPACE_RE :: regex where
  "WHITESPACE_RE = Compile (Plus Space) []"

text \<open>The pattern \<open>rf"<\s*{tag}[^>]*>(.*?)</\s*{tag}\s*>"\<close> for a tag name.\<close>

definition element_re :: "string \<Rightarrow> regex" where
  "element_re tag =
     Compile (Seq [Lit ''<'', Star Space, Lit tag, Star (NoneOf [Ch CHR ''>'']), Lit ''>'',
                   Grp (StarLazy AnyChar), Lit ''</'', Star Space, Lit tag, Star Space, Lit ''>''])
       [IGNORECASE, DOTALL]"

definition ANCHOR_HREF_RE :: regex where
  "ANCHOR_HREF_RE =
     Compile (Seq [Lit ''<'', Star Space, Lit ''a'', Star (NoneOf [Ch CHR ''>'']), Lit ''href='',
                   Star Space, OneOf [Ch (CHR 0x27), Ch (CHR 0x22)],
                   Grp (Plus (NoneOf [Ch (CHR 0x27), Ch (CHR 0x22)])),
                   OneOf [Ch (CHR 0x27), Ch (CHR 0x22)], Star (NoneOf [Ch CHR ''>'']), Lit ''>'',
                   Grp (StarLazy AnyChar), Lit ''</'', Star Space, Lit ''a'', Star Space, Lit ''>''])
       [IGNORECASE, DOTALL]"

definition strip_scripts_and_styles :: "pylib \<Rightarrow> pystr \<Rightarrow> pystr" where
  "strip_scripts_and_styles L html =
     (if html = [] then []
      else re_sub L BR_RE [NL] (re_sub L BLOCKED_ELEMENT_RE [SP] html))"

text \<open>
  The three lines every extraction loop applies to the inner content of an element:
  tags to spaces, entities unescaped, whitespace collapsed and stripped.
\<close>

definition inner_text :: "pylib \<Rightarrow> pystr \<Rightarrow> pystr" where
  "inner_text L m = py_strip (re_sub L WHITESPACE_RE [SP] (unescape L (re_sub L ANY_TAG_RE [SP] m)))"

definition any_pattern_found :: "pylib \<Rightarrow> pystr \<Rightarrow> bool" where
  "any_pattern_found L txt = list_ex (\<lambda>(name, pat, w). re_search L pat txt) PATTERNS"

text \<open>The inner loop of the first pass, for one tag: the blocks it appends.\<close>

fun tag_blocks :: "pylib \<Rightarrow> string \<Rightarrow> pystr list \<Rightarrow> pystr list" where
  "tag_blocks L tag [] = []"
| "tag_blocks L tag (m # ms) =
     (let txt = inner_text L m in
      if txt = [] then tag_blocks L tag ms
      else if tag \<notin> set [''h1'', ''h2'', ''h3''] \<and> length txt < 30 \<and> \<not> any_pattern_found L txt
      then tag_blocks L tag ms
      else txt # tag_blocks L tag ms)"

fun anchor_blocks :: "pylib \<Rightarrow> pystr list \<Rightarrow> pystr list" where
  "anchor_blocks L [] = []"
| "anchor_blocks L (m # ms) =
     (let txt = inner_text L m in
      if txt = [] then anchor_blocks L ms
      else if length txt \<ge> 25 \<or> any_pattern_found L txt then txt # anchor_blocks L ms
      else anchor_blocks L ms)"

text \<open>The list \<open>blocks\<close> of \<open>extract_text_blocks\<close> before deduplication.\<close>

definition candidate_blocks :: "pylib \<Rightarrow> pystr \<Rightarrow> pystr list" where
  "candidate_blocks L html =
     (let cleaned = strip_scripts_and_styles L html in
      concat (map (\<lambda>tag. tag_blocks L tag (re_findall L (element_re tag) cleaned))
                [''h1'', ''h2'', ''h3'', ''h4'', ''h5'', ''h6'', ''p'', ''li''])
      @ anchor_blocks L (re_findall L (element_re ''a'') cleaned))"

text \<open>The deduplication loop, from the running \<open>seen\<close> and \<open>unique_blocks\<close>.\<close>

fun dedup_loop :: "pystr list \<Rightarrow> pystr set \<Rightarrow> pystr list \<Rightarrow> pystr list" where
  "dedup_loop [] seen unique_blocks = unique_blocks"
| "dedup_loop (b # bs) seen unique_blocks =
     (if b \<in> seen then dedup_loop bs seen unique_blocks
      else dedup_loop bs (insert b seen) (unique_blocks @ [b]))"

definition extract_text_blocks :: "pylib \<Rightarrow> pystr \<Rightarrow> pystr list" where
  "extract_text_blocks L html = take 600 (dedup_loop (candidate_blocks L html) {} [])"

text \<open>The position at which a string first appears in a list.\<close>

definition first_index :: "'a list \<Rightarrow> 'a \<Rightarrow> nat" where
  "first_index xs x = length (takeWhile (\<lambda>y. y \<noteq> x) xs)"

section \<open>Snippet selector\<close>

definition SENTENCE_END_RE :: regex where
  "SENTENCE_END_RE =
     Compile (Seq [Behind (OneOf [Ch CHR ''.'', Ch CHR ''!'', Ch CHR ''?'', Cp 8230]), Plus Space]) []"

definition split_into_sentences :: "pylib \<Rightarrow> pystr \<Rightarrow> pystr list" where
  "split_into_sentences L txt =
     (let t = py_strip (py_replace_char NL SP txt) in
      if t = [] then []
      else map py_strip (filter (\<lambda>p. py_strip p \<noteq> []) (re_split L SENTENCE_END_RE t)))"

text \<open>
  The loop over \<open>enumerate(sentences)\<close>, from the running
  \<open>(best_idx, best_score, best_hits)\<close>; the first argument is the index of the head.
\<close>

fun best_sentence_loop ::
  "pylib \<Rightarrow> nat \<Rightarrow> pystr list \<Rightarrow> nat \<times> int \<times> hits \<Rightarrow> nat \<times> int \<times> hits" where
  "best_sentence_loop L i [] best = best"
| "best_sentence_loop L i (sent # sents) (best_idx, best_score, best_hits) =
     (case score_text_block L sent of (score, hits) \<Rightarrow>
        if score > best_score then best_sentence_loop L (Suc i) sents (i, score, hits)
        else best_sentence_loop L (Suc i) sents (best_idx, best_score, best_hits))"

text \<open>
  The excerpt before truncation: the best sentence with one neighbour on each side,
  \<open>" ".join(sentences[start:end]).strip()\<close>.
\<close>

definition snippet_window :: "pystr list \<Rightarrow> nat \<Rightarrow> pystr" where
  "snippet_window sentences best_idx =
     (let start = best_idx - 1;
          end = min (length sentences) (best_idx + 2)
      in py_strip (py_join [SP] (take (end - start) (drop start sentences))))"

definition truncate_snippet :: "pystr \<Rightarrow> pystr" where
  "truncate_snippet snippet =
     (if length snippet > 700 then rsplit_space_first (take 700 snippet) @ [SP, ELLIPSIS]
      else snippet)"

definition best_sentence_snippet :: "pylib \<Rightarrow> pystr \<Rightarrow> pystr option \<times> int \<times> hits" where
  "best_sentence_snippet L block_text =
     (let sentences = split_into_sentences L block_text in
      if sentences = [] then (None, 0, Map.empty)
      else case best_sentence_loop L 0 sentences (0, 0, Map.empty) of
             (best_idx, best_score, best_hits) \<Rightarrow>
               (Some (truncate_snippet (snippet_window sentences best_idx)), best_score, best_hits))"

text \<open>
  The excerpt of a block before the length test: the value of \<open>snippet\<close> when
  \<open>best_sentence_snippet\<close> reaches \<open>if len(snippet) > 700\<close>.
\<close>

definition excerpt :: "pylib \<Rightarrow> pystr \<Rightarrow> pystr" where
  "excerpt L block_text =
     (let sentences = split_into_sentences L block_text in
      snippet_window sentences (fst (best_sentence_loop L 0 sentences (0, 0, Map.empty))))"

section \<open>Page scanner\<close>

text \<open>
  What \<open>requests.get\<close> gives for a URL: a \<open>RequestException\<close>, or a response with its
  status code, its \<open>Content-Type\<close> header if any, and its body text.
\<close>

datatype http_result = RequestException | Response int "pystr option" pystr

text \<open>What \<open>curl\<close> gives for one call of the generative API.
  \<^item> \<open>CurlFailed\<close>: non-zero exit status;
  \<^item> \<open>NotJson\<close>: the output does not parse as JSON;
  \<^item> \<open>BadShape\<close>: JSON on which the extraction of the texts raises;
  \<^item> \<open>Reply candidates top_text\<close>: for each candidate the \<open>text\<close> of each of its parts, and the
    top-level \<open>text\<close> field if present.\<close>

datatype api_reply =
    CurlFailed
  | NotJson
  | BadShape
  | Reply "pystr option list list" "pystr option"

text \<open>
  A write to a file: done; refused when the file is opened (the file keeps its content);
  or failed after the file was truncated (the file no longer parses).
\<close>

datatype write_outcome = Written | OpenFailed | WriteTorn

text \<open>
  The collaborators outside the process. Calls of the API, writes and readings of the
  clock are numbered by the count \<open>steps\<close> of the state, so that each may answer
  differently.
\<close>

record extern =
  http_get :: "pystr \<Rightarrow> http_result"
  api_reply :: "nat \<Rightarrow> pystr \<Rightarrow> pystr \<Rightarrow> api_reply"
  disk_write :: "nat \<Rightarrow> write_outcome"
  utcnow :: "nat \<Rightarrow> pystr"

text \<open>
  The finding of a page. \<open>f_confidence\<close> is in hundredths: for an integer score,
  \<open>min(1.0, score / 10.0)\<close> is a multiple of one tenth, which rounding to two decimals keeps.
\<close>

record finding =
  f_url :: pystr
  f_score :: int
  f_confidence :: int
  f_text :: pystr
  f_hits :: hits
  f_html :: pystr

text \<open>Truthiness of an optional string: neither \<open>None\<close> nor empty.\<close>

definition truthy :: "pystr option \<Rightarrow> bool" where
  "truthy v \<longleftrightarrow> v \<noteq> None \<and> v \<noteq> Some []"

text \<open>\<open>a or b\<close> on optional strings.\<close>

definition py_or :: "pystr option \<Rightarrow> pystr option \<Rightarrow> pystr option" where
  "py_or a b = (if truthy a then a else b)"

definition page_has_core :: "pylib \<Rightarrow> pystr \<Rightarrow> bool" where
  "page_has_core L html = list_ex (\<lambda>pat. re_search L pat html) CORE_PATTERNS"

text \<open>
  The loop over the blocks, from the running \<open>(best_snippet, best_score, best_hits)\<close>.
\<close>

fun scan_loop ::
  "pylib \<Rightarrow> pystr list \<Rightarrow> pystr option \<times> int \<times> hits \<Rightarrow> pystr option \<times> int \<times> hits" where
  "scan_loop L [] best = best"
| "scan_loop L (block # blocks) (best_snippet, best_score, best_hits) =
     (case best_sentence_snippet L block of (snippet, s, h) \<Rightarrow>
        if s > best_score \<and> truthy snippet then scan_loop L blocks (snippet, s, h)
        else scan_loop L blocks (best_snippet, best_score, best_hits))"

definition scan_page_for_chase :: "pylib \<Rightarrow> extern \<Rightarrow> pystr \<Rightarrow> finding option" where
  "scan_page_for_chase L E url =
     (case http_get E url of
        RequestException \<Rightarrow> None
      | Response status_code ctype body \<Rightarrow>
          if status_code \<ge> 400 then None
          else let content_type = str_lower L (case ctype of None \<Rightarrow> [] | Some c \<Rightarrow> c) in
          if \<not> py_contains (py ''text/html'') content_type then None
          else let html = body in
          if py_contains (py ''Access to this site has been denied'') html then None
          else let blocks = extract_text_blocks L html;
                   has_core = page_has_core L html
          in case scan_loop L blocks (None, 0, Map.empty) of
               (best_snippet, best_score, best_hits) \<Rightarrow>
                 if \<not> has_core \<or> best_score < MIN_SCORE_TO_LOG \<or> \<not> truthy best_snippet then None
                 else Some \<lparr> f_url = url, f_score = best_score,
                             f_confidence = min 100 (best_score * 10),
                             f_text = the best_snippet, f_hits = best_hits, f_html = html \<rparr>)"

section \<open>Title and link resolver\<close>

definition LIVE_RE :: regex where
  "LIVE_RE = Compile (Seq [WordB, Lit ''live'', WordB]) [IGNORECASE]"

definition LIVE_TEXT_RE :: regex where
  "LIVE_TEXT_RE =
     Compile (Alt [Seq [WordB, Lit ''live''],
                   Seq [Lit ''watch'', Plus Space, Lit ''live''],
                   Seq [Lit ''live'', Plus Space, Lit ''stream''],
                   Seq [Lit ''live'', Plus Space, Lit ''coverage'', WordB]]) [IGNORECASE]"

definition LIVE_HREF_RE :: regex where
  "LIVE_HREF_RE = Compile (Alt [Lit ''/live'', Lit ''live-'']) [IGNORECASE]"

fun anchor_pairs :: "pylib \<Rightarrow> (pystr \<times> pystr) list \<Rightarrow> (pystr \<times> pystr) list" where
  "anchor_pairs L [] = []"
| "anchor_pairs L ((href, inner) # ms) =
     (let txt = inner_text L inner in
      if txt = [] then anchor_pairs L ms else (txt, href) # anchor_pairs L ms)"

definition extract_anchors :: "pylib \<Rightarrow> pystr \<Rightarrow> (pystr \<times> pystr) list" where
  "extract_anchors L html =
     anchor_pairs L (re_findall2 L ANCHOR_HREF_RE (re_sub L BLOCKED_ELEMENT_RE [SP] html))"

definition extract_headings :: "pylib \<Rightarrow> pystr \<Rightarrow> pystr list" where
  "extract_headings L html =
     (let cleaned = strip_scripts_and_styles L html in
      concat (map (\<lambda>tag. filter (\<lambda>txt. txt \<noteq> [])
                            (map (inner_text L) (re_findall L (element_re tag) cleaned)))
                [''h1'', ''h2'', ''h3'', ''h4'', ''h5'', ''h6'']))"

text \<open>The score of a candidate title: the pattern score, plus 6 for the word "live".\<close>

definition title_score :: "pylib \<Rightarrow> pystr \<Rightarrow> int" where
  "title_score L txt =
     (let s = fst (score_text_block L txt) in if re_search L LIVE_RE txt then s + 6 else s)"

text \<open>
  The two loops of the resolver, from the running \<open>(best_title, best_href, best_score)\<close>.
  The loop over the anchors joins the link of each new best anchor with the base URL, and
  an exception of \<open>urljoin\<close> ends the resolver.
\<close>

fun anchors_loop ::
  "pylib \<Rightarrow> pystr \<Rightarrow> (pystr \<times> pystr) list \<Rightarrow> pystr option \<times> pystr option \<times> int
     \<Rightarrow> exn + pystr option \<times> pystr option \<times> int" where
  "anchors_loop L base_url [] best = Inr best"
| "anchors_loop L base_url ((txt, href) # rest) (best_title, best_href, best_score) =
     (let s = title_score L txt in
      if s > best_score
      then (case urljoin L base_url href of
              None \<Rightarrow> Inl ValueError
            | Some joined \<Rightarrow> anchors_loop L base_url rest (Some txt, Some joined, s))
      else anchors_loop L base_url rest (best_title, best_href, best_score))"

fun headings_loop ::
  "pylib \<Rightarrow> pystr list \<Rightarrow> pystr option \<times> pystr option \<times> int
     \<Rightarrow> pystr option \<times> pystr option \<times> int" where
  "headings_loop L [] best = best"
| "headings_loop L (txt # rest) (best_title, best_href, best_score) =
     (let s = title_score L txt in
      if s > best_score then headings_loop L rest (Some txt, None, s)
      else headings_loop L rest (best_title, best_href, best_score))"

definition choose_best_title_and_link ::
  "pylib \<Rightarrow> pystr \<Rightarrow> pystr \<Rightarrow> exn + pystr option \<times> pystr option" where
  "choose_best_title_and_link L html base_url =
     (let anchors = extract_anchors L html;
          headings = extract_headings L html
      in case anchors_loop L base_url anchors (None, None, 0) of
           Inl e \<Rightarrow> Inl e
         | Inr best \<Rightarrow>
             (case headings_loop L headings best of
                (best_title, best_href, best_score) \<Rightarrow> Inr (best_title, best_href)))"

text \<open>
  The first anchor that looks live, joined with the base URL; an exception of \<open>urljoin\<close>
  ends the search.
\<close>

fun live_link_loop :: "pylib \<Rightarrow> pystr \<Rightarrow> (pystr \<times> pystr) list \<Rightarrow> exn + pystr option" where
  "live_link_loop L base_url [] = Inr None"
| "live_link_loop L base_url ((txt, href) # rest) =
     (if href = [] then live_link_loop L base_url rest
      else if re_search L LIVE_TEXT_RE txt \<or> re_search L LIVE_HREF_RE href
      then (case urljoin L base_url href of
              None \<Rightarrow> Inl ValueError
            | Some joined \<Rightarrow> Inr (Some joined))
      else live_link_loop L base_url rest)"

definition find_any_live_link :: "pylib \<Rightarrow> pystr \<Rightarrow> pystr \<Rightarrow> exn + pystr option" where
  "find_any_live_link L html base_url = live_link_loop L base_url (extract_anchors L html)"

text \<open>
  The title the main loop goes on with: the resolver's title, or the finding's snippet
  when the resolver found none (\<open>if not title: title = result.get("text") or ""\<close>).
\<close>

definition title_for :: "pylib \<Rightarrow> finding \<Rightarrow> exn + pystr \<times> pystr option" where
  "title_for L result =
     (case choose_best_title_and_link L (f_html result) (f_url result) of
        Inl e \<Rightarrow> Inl e
      | Inr (title, candidate_href) \<Rightarrow>
          Inr (if truthy title then the title else f_text result, candidate_href))"

section \<open>State of the process and of the files\<close>

text \<open>The file \<open>.env\<close>: missing, not readable, or its lines.\<close>

datatype dotenv = NoDotenv | DotenvUnreadable | DotenvLines "pystr list"

text \<open>
  A file of the cache directory: one that does not load as a JSON object, or an object
  with its \<open>response\<close> field (\<open>None\<close> when the field is missing or null).
\<close>

datatype cache_file = CacheCorrupt | CacheEntry "pystr option"

text \<open>
  A JSON object with string values, as the program writes to \<open>last_chase.json\<close>, and the
  file itself: missing, not loading, holding an object, or holding another JSON value. Of
  a value that is not an object only the truthiness matters to the program.
\<close>

type_synonym jdict = "(string \<times> pystr) list"

datatype chase_file = ChaseAbsent | ChaseUnreadable | ChaseStored jdict | ChaseOther bool

text \<open>What \<open>json.load\<close> returns: an object, or another value with its truthiness.\<close>

datatype loaded = JObject jdict | JOther bool

record world =
  environ :: "pystr \<rightharpoonup> pystr"
  dotenv_file :: dotenv
  cache_files :: "pystr \<rightharpoonup> cache_file"
  last_chase_file :: chase_file
  steps :: nat
  fetched :: "pystr list"
  alerts_posted :: "(pystr \<times> pystr) list"
  logs_posted :: "(pystr \<times> pystr) list"
  log_txt :: "finding list"

text \<open>
  \<open>fetched\<close> lists the URLs requested with \<open>requests.get\<close>; \<open>alerts_posted\<close> and
  \<open>logs_posted\<close> list the calls of \<open>requests.post\<close> as (webhook, message), whatever
  became of the request; \<open>log_txt\<close> lists the findings appended to \<open>log.txt\<close>.
  Output on the console and \<open>time.sleep\<close> are left out.
\<close>

definition getenv :: "world \<Rightarrow> string \<Rightarrow> pystr option" where
  "getenv w name = environ w (py name)"

subsection \<open>Loading of \<open>.env\<close>\<close>

text \<open>One line of \<open>.env\<close>: the key and the value it defines, if any.\<close>

definition parse_env_line :: "pystr \<Rightarrow> (pystr \<times> pystr) option" where
  "parse_env_line line0 =
     (let line = py_strip line0 in
      if line = [] \<or> py_startswith line (py ''#'') \<or> 61 \<notin> set line then None
      else let k = takeWhile (\<lambda>c. c \<noteq> 61) line;
               v = tl (dropWhile (\<lambda>c. c \<noteq> 61) line)
           in Some (py_strip k, py_strip_char 34 (py_strip_char 39 (py_strip v))))"

text \<open>
  Writing a variable of the environment raises for an empty name (\<open>OSError\<close>) and for a
  null character in the name or the value (\<open>ValueError\<close>).
\<close>

definition putenv_raises :: "pystr \<Rightarrow> pystr \<Rightarrow> bool" where
  "putenv_raises k v \<longleftrightarrow> k = [] \<or> 0 \<in> set k \<or> 0 \<in> set v"

text \<open>
  The loader of \<open>gemini.py\<close>, run when the module is imported. \<open>setdefault\<close> writes only
  a name that is not yet defined; when the write raises, the \<open>except\<close> around the loop
  ends the loading and the lines that follow are not read.
\<close>

fun gemini_dotenv_lines :: "pystr list \<Rightarrow> (pystr \<rightharpoonup> pystr) \<Rightarrow> (pystr \<rightharpoonup> pystr)" where
  "gemini_dotenv_lines [] env = env"
| "gemini_dotenv_lines (line # rest) env =
     (case parse_env_line line of
        None \<Rightarrow> gemini_dotenv_lines rest env
      | Some (k, v) \<Rightarrow>
          (case env k of
             Some old \<Rightarrow> gemini_dotenv_lines rest env
           | None \<Rightarrow>
               if putenv_raises k v then env
               else gemini_dotenv_lines rest (env(k \<mapsto> v))))"

definition gemini_load_dotenv :: "world \<Rightarrow> world" where
  "gemini_load_dotenv w =
     (if getenv w ''GEMINI_API_KEY'' \<noteq> None then w
      else case dotenv_file w of
             NoDotenv \<Rightarrow> w
           | DotenvUnreadable \<Rightarrow> w
           | DotenvLines ls \<Rightarrow> w\<lparr>environ := gemini_dotenv_lines ls (environ w)\<rparr>)"

text \<open>The loader inside \<open>main\<close>, which sets \<open>DISCORD_WEBHOOK\<close> only.\<close>

fun main_dotenv_lines :: "pystr list \<Rightarrow> (pystr \<rightharpoonup> pystr) \<Rightarrow> (pystr \<rightharpoonup> pystr)" where
  "main_dotenv_lines [] env = env"
| "main_dotenv_lines (line # rest) env =
     (case parse_env_line line of
        None \<Rightarrow> main_dotenv_lines rest env
      | Some (k, v) \<Rightarrow>
          if k = py ''DISCORD_WEBHOOK'' \<and> env k = None
          then (if putenv_raises k v then env else main_dotenv_lines rest (env(k \<mapsto> v)))
          else main_dotenv_lines rest env)"

definition main_load_dotenv :: "world \<Rightarrow> world" where
  "main_load_dotenv w =
     (if getenv w ''DISCORD_WEBHOOK'' \<noteq> None then w
      else case dotenv_file w of
             NoDotenv \<Rightarrow> w
           | DotenvUnreadable \<Rightarrow> w
           | DotenvLines ls \<Rightarrow> w\<lparr>environ := main_dotenv_lines ls (environ w)\<rparr>)"

section \<open>The oracle: \<open>ask_gemini\<close>\<close>

definition load_cache :: "world \<Rightarrow> pystr \<Rightarrow> pystr option" where
  "load_cache w key =
     (case cache_files w key of
        None \<Rightarrow> None
      | Some CacheCorrupt \<Rightarrow> None
      | Some (CacheEntry r) \<Rightarrow> r)"

definition save_cache :: "extern \<Rightarrow> pystr \<Rightarrow> pystr \<Rightarrow> world \<Rightarrow> world" where
  "save_cache E key response w =
     (case disk_write E (steps w) of
        Written \<Rightarrow> w\<lparr>cache_files := (cache_files w)(key \<mapsto> CacheEntry (Some response)),
                     steps := Suc (steps w)\<rparr>
      | OpenFailed \<Rightarrow> w\<lparr>steps := Suc (steps w)\<rparr>
      | WriteTorn \<Rightarrow> w\<lparr>cache_files := (cache_files w)(key \<mapsto> CacheCorrupt),
                       steps := Suc (steps w)\<rparr>)"

definition send_log_webhook :: "pystr \<Rightarrow> world \<Rightarrow> world" where
  "send_log_webhook message w =
     (if truthy (getenv w ''LOG_WEBHOOK'')
      then w\<lparr>logs_posted := logs_posted w @ [(the (getenv w ''LOG_WEBHOOK''), message)]\<rparr>
      else w)"

definition curl_generate_content :: "api_reply \<Rightarrow> exn + pystr" where
  "curl_generate_content reply =
     (case reply of
        CurlFailed \<Rightarrow> Inl RuntimeError
      | NotJson \<Rightarrow> Inl RuntimeError
      | BadShape \<Rightarrow> Inl TypeError
      | Reply candidates top_text \<Rightarrow>
          let texts = concat (map (\<lambda>parts. concat (map (\<lambda>t. if truthy t then [the t] else []) parts))
                                candidates);
              texts = (if texts = [] then (case top_text of None \<Rightarrow> texts | Some t \<Rightarrow> [t]) else texts)
          in Inr (py_strip (py_join [NL] texts)))"

text \<open>
  The retry loop of \<open>ask_gemini\<close> over the attempts that remain; when none remains the
  result is the empty string.
\<close>

fun retry_loop ::
  "extern \<Rightarrow> pystr \<Rightarrow> pystr \<Rightarrow> nat \<Rightarrow> pystr \<Rightarrow> nat list \<Rightarrow> world \<Rightarrow> (exn + pystr) \<times> world" where
  "retry_loop E prompt model max_retries key [] w = (Inr [], w)"
| "retry_loop E prompt model max_retries key (attempt # rest) w =
     (let w' = w\<lparr>steps := Suc (steps w)\<rparr> in
      case curl_generate_content (api_reply E (steps w) model prompt) of
        Inr response_text \<Rightarrow>
          if response_text \<noteq> [] then (Inr response_text, save_cache E key response_text w')
          else retry_loop E prompt model max_retries key rest w'
      | Inl e \<Rightarrow>
          if Suc attempt = max_retries then (Inl GeminiRequestFailed, w')
          else retry_loop E prompt model max_retries key rest w')"

definition ask_gemini ::
  "pylib \<Rightarrow> extern \<Rightarrow> pystr \<Rightarrow> pystr option \<Rightarrow> pystr \<Rightarrow> nat \<Rightarrow> world \<Rightarrow> (exn + pystr) \<times> world" where
  "ask_gemini L E prompt api_key model max_retries w =
     (let api_key = py_or api_key (getenv w ''GEMINI_API_KEY'') in
      if \<not> truthy api_key then (Inl ValueError, w)
      else let key = cache_digest L prompt model in
      case load_cache w key of
        Some cached \<Rightarrow> (Inr cached, w)
      | None \<Rightarrow>
          retry_loop E prompt model max_retries key [0 ..< max_retries]
            (send_log_webhook
               (py ''Gemini cache miss model='' @ model @ py '' key='' @ take 8 key
                  @ py '' prompt='' @ [39] @ take 200 prompt @ [39]) w))"

text \<open>The call with the default arguments, as both gateways make it.\<close>

definition ask_gemini_default :: "pylib \<Rightarrow> extern \<Rightarrow> pystr \<Rightarrow> world \<Rightarrow> (exn + pystr) \<times> world" where
  "ask_gemini_default L E prompt w = ask_gemini L E prompt None (py ''gemini-2.5-flash'') 3 w"

section \<open>The two gateways\<close>

text \<open>
  The last two lines of both gateways:
  \<open>ans = (resp or "").strip().split()[0].upper() if resp else ""; return ans == "YES"\<close>.
  Indexing the empty list of tokens raises \<open>IndexError\<close>.
\<close>

definition answer_is_yes :: "pylib \<Rightarrow> pystr \<Rightarrow> exn + bool" where
  "answer_is_yes L resp =
     (if resp = [] then Inr False
      else case py_split (py_strip resp) of
             [] \<Rightarrow> Inl IndexError
           | tok # toks \<Rightarrow> Inr (str_upper L tok = py ''YES''))"

definition live_prompt :: "pystr \<Rightarrow> pystr" where
  "live_prompt title =
     py ''You are a strict classifier. Given the news headline, decide if it indicates a LIVE ongoing police pursuit/chase that is currently happening and being broadcast live. ''
     @ py ''Respond with a single token: YES or NO. If unsure, respond NO.'' @ [NL]
     @ py ''Headline: '' @ [34] @ title @ [34] @ [NL] @ py ''Answer:''"

definition ask_is_live_ongoing :: "pylib \<Rightarrow> extern \<Rightarrow> pystr \<Rightarrow> world \<Rightarrow> (exn + bool) \<times> world" where
  "ask_is_live_ongoing L E title w =
     (if title = [] then (Inr False, w)
      else case ask_gemini_default L E (live_prompt title) w of
             (Inl e, w') \<Rightarrow> (Inr False, w')
           | (Inr resp, w') \<Rightarrow> (answer_is_yes L resp, w'))"

text \<open>\<open>d.get(k) or ''\<close> on a stored object.\<close>

definition get_or_empty :: "jdict \<Rightarrow> string \<Rightarrow> pystr" where
  "get_or_empty d k = (case map_of d k of None \<Rightarrow> [] | Some v \<Rightarrow> v)"

definition summary :: "string \<Rightarrow> string \<Rightarrow> jdict \<Rightarrow> pystr" where
  "summary pre time_key d =
     py (pre @ ''_title: '') @ get_or_empty d ''title'' @ [NL]
     @ py (pre @ ''_text: '') @ get_or_empty d ''text'' @ [NL]
     @ py (pre @ ''_site: '') @ get_or_empty d ''source_site'' @ [NL]
     @ py (pre @ ''_url: '') @ get_or_empty d ''page_url'' @ [NL]
     @ py (pre @ ''_live: '') @ get_or_empty d ''live_link'' @ [NL]
     @ py (pre @ ''_time_utc: '') @ get_or_empty d time_key @ [NL]"

definition same_chase_prompt :: "jdict \<Rightarrow> jdict \<Rightarrow> pystr" where
  "same_chase_prompt previous current =
     py ''You are a strict deduplication classifier for police pursuits. There is only one chase at a time.'' @ [NL]
     @ py ''Determine if the CURRENT chase is the same ongoing event as the PREVIOUS chase (possibly covered by a different outlet or link).'' @ [NL]
     @ py ''Use location cues, suspect/vehicle details, and close time proximity. If it likely refers to the same ongoing event or a continuation/update, answer YES. Otherwise NO.'' @ [NL]
     @ py ''Output only YES or NO.'' @ [NL, NL]
     @ py ''PREVIOUS:'' @ [NL] @ summary ''prev'' ''alerted_at'' previous
     @ [NL] @ py ''CURRENT:'' @ [NL] @ summary ''curr'' ''evaluated_at'' current
     @ [NL] @ py ''Answer:''"

text \<open>
  \<open>previous\<close> is what \<open>_load_last_chase\<close> returned: \<open>None\<close>, an object or another JSON
  value. A falsy value gives "not a duplicate" at once; a truthy value that is not an
  object has no method \<open>get\<close>, and building the prompt raises \<open>AttributeError\<close>.
\<close>

definition ask_is_same_chase ::
  "pylib \<Rightarrow> extern \<Rightarrow> loaded option \<Rightarrow> jdict \<Rightarrow> world \<Rightarrow> (exn + bool) \<times> world" where
  "ask_is_same_chase L E previous current w =
     (case previous of
        None \<Rightarrow> (Inr False, w)
      | Some (JOther truth) \<Rightarrow> (if truth then (Inl AttributeError, w) else (Inr False, w))
      | Some (JObject []) \<Rightarrow> (Inr False, w)
      | Some (JObject (kv # kvs)) \<Rightarrow>
          (case ask_gemini_default L E (same_chase_prompt (kv # kvs) current) w of
             (Inl e, w') \<Rightarrow> (Inr False, w')
           | (Inr resp, w') \<Rightarrow> (answer_is_yes L resp, w')))"

section \<open>The main loop\<close>

text \<open>
  The URL list is the text block of the source split at newlines: every line after the
  first keeps its four leading spaces.
\<close>

definition news :: "pystr list" where
  "news = map py [
     ''https://www.nbclosangeles.com/'',
     ''    https://www.presstelegram.com'',
     ''    https://www.pasadenastarnews.com'',
     ''    https://smdp.com'',
     ''    https://glendalenewspress.com'',
     ''    https://burbankleader.com'',
     ''    https://signalscv.com'',
     ''    https://www.dailybreeze.com'',
     ''    https://inglewoodtoday.com'',
     ''    https://wehoonline.com'',
     ''    https://www.culvercityobserver.com'',
     ''    https://beverlyhillscourier.com'',
     ''    https://www.ocregister.com'',
     ''    https://www.pressenterprise.com'',
     ''    https://www.sbsun.com'',
     ''    https://www.dailybulletin.com'',
     ''    https://www.avpress.com'',
     ''    https://www.sgvtribune.com'']"

definition send_discord_alert :: "pystr \<Rightarrow> world \<Rightarrow> world" where
  "send_discord_alert message w =
     (if truthy (getenv w ''DISCORD_WEBHOOK'')
      then w\<lparr>alerts_posted := alerts_posted w @ [(the (getenv w ''DISCORD_WEBHOOK''), message)]\<rparr>
      else w)"

definition domain_of :: "pylib \<Rightarrow> pystr \<Rightarrow> pystr" where
  "domain_of L url = (case netloc L url of None \<Rightarrow> [] | Some n \<Rightarrow> str_lower L n)"

definition utcnow_iso :: "extern \<Rightarrow> world \<Rightarrow> pystr \<times> world" where
  "utcnow_iso E w = (utcnow E (steps w) @ py ''Z'', w\<lparr>steps := Suc (steps w)\<rparr>)"

definition load_last_chase :: "world \<Rightarrow> loaded option" where
  "load_last_chase w =
     (case last_chase_file w of
        ChaseAbsent \<Rightarrow> None
      | ChaseUnreadable \<Rightarrow> None
      | ChaseStored d \<Rightarrow> Some (JObject d)
      | ChaseOther truth \<Rightarrow> Some (JOther truth))"

definition save_last_chase :: "extern \<Rightarrow> jdict \<Rightarrow> world \<Rightarrow> world" where
  "save_last_chase E info w =
     (case disk_write E (steps w) of
        Written \<Rightarrow> w\<lparr>last_chase_file := ChaseStored info, steps := Suc (steps w)\<rparr>
      | OpenFailed \<Rightarrow> w\<lparr>steps := Suc (steps w)\<rparr>
      | WriteTorn \<Rightarrow> w\<lparr>last_chase_file := ChaseUnreadable, steps := Suc (steps w)\<rparr>)"

definition log_pursuit :: "extern \<Rightarrow> finding \<Rightarrow> world \<Rightarrow> world" where
  "log_pursuit E findings w =
     (case disk_write E (steps w) of
        Written \<Rightarrow> w\<lparr>log_txt := log_txt w @ [findings], steps := Suc (steps w)\<rparr>
      | OpenFailed \<Rightarrow> w\<lparr>steps := Suc (steps w)\<rparr>
      | WriteTorn \<Rightarrow> w\<lparr>steps := Suc (steps w)\<rparr>)"

text \<open>
  Truthiness of what \<open>_load_last_chase\<close> returned: an object that is not empty, or
  another truthy value.
\<close>

definition truthy_loaded :: "loaded option \<Rightarrow> bool" where
  "truthy_loaded d \<longleftrightarrow>
     (case d of None \<Rightarrow> False | Some (JObject obj) \<Rightarrow> obj \<noteq> [] | Some (JOther truth) \<Rightarrow> truth)"

text \<open>
  The end of the loop body once the detection is not a duplicate: the alert, then the
  state file.
\<close>

definition alert_msg :: "pystr \<Rightarrow> pystr \<Rightarrow> pystr" where
  "alert_msg title live_link = py ''@everyone LIVE ONGOING CHASE: '' @ title @ [NL] @ live_link"

text \<open>The object written to \<open>last_chase.json\<close> after an alert.\<close>

definition alerted_obj :: "pylib \<Rightarrow> finding \<Rightarrow> pystr \<Rightarrow> pystr \<Rightarrow> pystr \<Rightarrow> jdict" where
  "alerted_obj L result title live_link now =
     [(''title'', title), (''text'', f_text result), (''page_url'', f_url result),
      (''source_site'', domain_of L (f_url result)), (''live_link'', live_link),
      (''alerted_at'', now)]"

definition alert_and_save ::
  "pylib \<Rightarrow> extern \<Rightarrow> finding \<Rightarrow> pystr \<Rightarrow> pystr \<Rightarrow> world \<Rightarrow> world" where
  "alert_and_save L E result title live_link w =
     (let w1 = send_discord_alert (alert_msg title live_link) w
      in case utcnow_iso E w1 of
           (now, w2) \<Rightarrow> save_last_chase E (alerted_obj L result title live_link now) w2)"

text \<open>
  The live link of a detection:
  \<open>_find_any_live_link(html, url) or candidate_href or url\<close>.
\<close>

definition live_link_for :: "pylib \<Rightarrow> finding \<Rightarrow> pystr option \<Rightarrow> exn + pystr" where
  "live_link_for L result candidate_href =
     (case find_any_live_link L (f_html result) (f_url result) of
        Inl e \<Rightarrow> Inl e
      | Inr found \<Rightarrow> Inr (the (py_or found (py_or candidate_href (Some (f_url result))))))"

text \<open>The object \<open>current_obj\<close> handed to the deduplication gateway.\<close>

definition current_obj :: "pylib \<Rightarrow> finding \<Rightarrow> pystr \<Rightarrow> pystr \<Rightarrow> pystr \<Rightarrow> jdict" where
  "current_obj L result title live_link now =
     [(''title'', title), (''text'', f_text result), (''page_url'', f_url result),
      (''source_site'', domain_of L (f_url result)), (''live_link'', live_link),
      (''evaluated_at'', now)]"

text \<open>
  The loop body once the classifier said that the chase is live: the live link, the
  comparison with the last chase, the alert. An exception of the live link or of the
  deduplication gateway leaves the loop.
\<close>

definition handle_live ::
  "pylib \<Rightarrow> extern \<Rightarrow> finding \<Rightarrow> pystr \<Rightarrow> pystr option \<Rightarrow> world \<Rightarrow> exn option \<times> world" where
  "handle_live L E result title candidate_href w =
     (case live_link_for L result candidate_href of
        Inl e \<Rightarrow> (Some e, w)
      | Inr live_link \<Rightarrow>
          let last = load_last_chase w
          in case utcnow_iso E w of
               (now, w1) \<Rightarrow>
                 if truthy_loaded last
                 then (case ask_is_same_chase L E last (current_obj L result title live_link now) w1 of
                         (Inl e, w2) \<Rightarrow> (Some e, w2)
                       | (Inr True, w2) \<Rightarrow> (None, w2)
                       | (Inr False, w2) \<Rightarrow> (None, alert_and_save L E result title live_link w2))
                 else (None, alert_and_save L E result title live_link w1))"

text \<open>
  One turn of the loop over the URLs. The result is the exception that leaves the loop,
  if any, and the state.
\<close>

definition main_step :: "pylib \<Rightarrow> extern \<Rightarrow> pystr \<Rightarrow> world \<Rightarrow> exn option \<times> world" where
  "main_step L E news_url w =
     (let w1 = w\<lparr>fetched := fetched w @ [news_url]\<rparr> in
      case scan_page_for_chase L E news_url of
        None \<Rightarrow> (None, w1)
      | Some result \<Rightarrow>
          let w2 = log_pursuit E result w1 in
          (case title_for L result of
             Inl e \<Rightarrow> (Some e, w2)
           | Inr (title, candidate_href) \<Rightarrow>
               (case ask_is_live_ongoing L E title w2 of
                  (Inl e, w3) \<Rightarrow> (Some e, w3)
                | (Inr True, w3) \<Rightarrow> handle_live L E result title candidate_href w3
                | (Inr False, w3) \<Rightarrow> (None, w3))))"

fun main_loop :: "pylib \<Rightarrow> extern \<Rightarrow> pystr list \<Rightarrow> world \<Rightarrow> exn option \<times> world" where
  "main_loop L E [] w = (None, w)"
| "main_loop L E (news_url # rest) w =
     (case main_step L E news_url w of
        (Some e, w') \<Rightarrow> (Some e, w')
      | (None, w') \<Rightarrow> main_loop L E rest w')"

definition main :: "pylib \<Rightarrow> extern \<Rightarrow> world \<Rightarrow> exn option \<times> world" where
  "main L E w = main_loop L E news (main_load_dotenv w)"

text \<open>A run: the import of \<open>gemini\<close> (which loads \<open>.env\<close>), then \<open>main\<close>.\<close>

definition program :: "pylib \<Rightarrow> extern \<Rightarrow> world \<Rightarrow> exn option \<times> world" where
  "program L E w = main L E (gemini_load_dotenv w)"

section \<open>Example pages and libraries\<close>

text \<open>
  A library given by tables: \<open>found\<close> lists the results of \<open>findall\<close> and \<open>searched\<close> the
  pairs on which \<open>search\<close> succeeds; no pattern matches elsewhere, nothing is substituted
  or split, and the remaining functions leave their argument as it is. The examples below
  tabulate what Python computes on the strings that occur in them. The digest of a cache
  key is replaced by the key itself, prompt and model side by side.
\<close>

definition table_lib ::
  "((regex \<times> pystr) \<times> pystr list) list \<Rightarrow> (regex \<times> pystr) list \<Rightarrow> pylib" where
  "table_lib found searched =
     \<lparr> re_findall = (\<lambda>p s. case map_of found (p, s) of None \<Rightarrow> [] | Some ms \<Rightarrow> ms),
       re_findall2 = (\<lambda>p s. []),
       re_search = (\<lambda>p s. (p, s) \<in> set searched),
       re_sub = (\<lambda>p repl s. s),
       re_split = (\<lambda>p s. [s]),
       unescape = (\<lambda>s. s),
       str_upper = (\<lambda>s. s),
       str_lower = (\<lambda>s. s),
       urljoin = (\<lambda>base href. Some href),
       netloc = (\<lambda>url. Some []),
       cache_digest = (\<lambda>prompt model. prompt @ model) \<rparr>"

definition signal_pattern :: "string \<Rightarrow> regex" where
  "signal_pattern name =
     (case map_of PATTERNS name of Some (pat, w) \<Rightarrow> pat | None \<Rightarrow> Compile (Seq []) [])"

text \<open>
  The page \<open><h1>Hwy Hwy Hwy</h1>\<close>: three matches of the signal "freeway/roads", no
  core signal.
\<close>

definition hwy_page :: pystr where
  "hwy_page = py ''<h1>Hwy Hwy Hwy</h1>''"

definition hwy_lib :: pylib where
  "hwy_lib = table_lib
     [((element_re ''h1'', hwy_page), [py ''Hwy Hwy Hwy'']),
      ((signal_pattern ''freeway/roads'', py ''Hwy Hwy Hwy''), [py ''Hwy'', py ''Hwy'', py ''Hwy''])]
     [(signal_pattern ''freeway/roads'', py ''Hwy Hwy Hwy''),
      (signal_pattern ''freeway/roads'', hwy_page)]"

text \<open>
  The library on texts in which no pattern matches and no sentence ends, such as a run of
  one letter.
\<close>

definition plain_lib :: pylib where
  "plain_lib = table_lib [] []"

text \<open>A block of 701 letters \<open>z\<close>.\<close>

definition long_word :: pystr where
  "long_word = replicate 701 122"

text \<open>A block of two words of 400 letters \<open>z\<close>, and a short one.\<close>

definition two_words :: pystr where
  "two_words = replicate 400 122 @ SP # replicate 400 122"

definition short_word :: pystr where
  "short_word = py ''zz''"

text \<open>
  The page \<open><h1>Pursuit</h1>\<close>: one match of the core signal "pursuit", whose optional
  group is empty.
\<close>

definition pursuit_page :: pystr where
  "pursuit_page = py ''<h1>Pursuit</h1>''"

definition pursuit_lib :: pylib where
  "pursuit_lib = table_lib
     [((element_re ''h1'', pursuit_page), [py ''Pursuit'']),
      ((signal_pattern ''pursuit'', py ''Pursuit''), [[]])]
     [(signal_pattern ''pursuit'', py ''Pursuit''),
      (signal_pattern ''pursuit'', pursuit_page)]"

text \<open>
  Collaborators for the examples: every URL answers with the given page as
  \<open>text/html\<close>, the API is out of reach, writes succeed and the clock stands still.
\<close>

definition serve :: "pystr \<Rightarrow> extern" where
  "serve page =
     \<lparr> http_get = (\<lambda>url. Response 200 (Some (py ''text/html'')) page),
       api_reply = (\<lambda>n model prompt. CurlFailed),
       disk_write = (\<lambda>n. Written),
       utcnow = (\<lambda>n. py ''2024-01-01T00:00:00'') \<rparr>"

text \<open>
  The page \<open><h1>News</h1><p>Pursuit</p>\<close>: a heading without any signal and a
  paragraph with the core signal "pursuit".
\<close>

definition news_page :: pystr where
  "news_page = py ''<h1>News</h1><p>Pursuit</p>''"

definition news_lib :: pylib where
  "news_lib = table_lib
     [((element_re ''h1'', news_page), [py ''News'']),
      ((element_re ''p'', news_page), [py ''Pursuit'']),
      ((signal_pattern ''pursuit'', py ''Pursuit''), [[]])]
     [(signal_pattern ''pursuit'', py ''Pursuit''),
      (signal_pattern ''pursuit'', news_page)]"

text \<open>
  Collaborators whose API answers every call with one candidate of one part holding the
  given text.
\<close>

definition answering :: "pystr \<Rightarrow> pystr \<Rightarrow> extern" where
  "answering page answer =
     (serve page)\<lparr> api_reply := (\<lambda>n model prompt. Reply [[Some answer]] None) \<rparr>"

text \<open>
  A state at the start of a run, with nothing in the environment; the same with the API
  key; the same with the API key and the alert webhook.
\<close>

definition bare_world :: world where
  "bare_world =
     \<lparr> environ = Map.empty, dotenv_file = NoDotenv, cache_files = Map.empty,
       last_chase_file = ChaseAbsent, steps = 0, fetched = [], alerts_posted = [],
       logs_posted = [], log_txt = [] \<rparr>"

definition keyed_world :: world where
  "keyed_world = bare_world\<lparr> environ := [py ''GEMINI_API_KEY'' \<mapsto> py ''secret''] \<rparr>"


text \<open>
  The first URL of the list, the library for the page \<open><h1>Pursuit</h1>\<close> served
  there, and the finding of that page.
\<close>

definition nbc_url :: pystr where
  "nbc_url = py ''https://www.nbclosangeles.com/''"

definition nbc_lib :: pylib where
  "nbc_lib = pursuit_lib\<lparr> netloc := (\<lambda>url. Some (py ''www.nbclosangeles.com'')) \<rparr>"

definition pursuit_finding :: finding where
  "pursuit_finding =
     \<lparr> f_url = nbc_url, f_score = 6, f_confidence = 60, f_text = py ''Pursuit'',
       f_hits = [''pursuit'' \<mapsto> 1], f_html = pursuit_page \<rparr>"



text \<open>
  A state whose cache holds, for the classifier prompt of the headline "Pursuit", a file
  with a response of one space.
\<close>

definition blank_cache_world :: world where
  "blank_cache_world =
     keyed_world\<lparr> cache_files :=
       [cache_digest nbc_lib (live_prompt (py ''Pursuit'')) (py ''gemini-2.5-flash'')
          \<mapsto> CacheEntry (Some [SP])] \<rparr>"

section \<open>Properties of the pattern scorer\<close>

lemma score_loop_total:
  "fst (score_loop L tbl txt (sc, h)) =
     sc + (\<Sum>(name, pat, weight)\<leftarrow>tbl. int (length (re_findall L pat txt)) * weight)"
  by (induction tbl arbitrary: sc h) (auto simp: Let_def)

lemma score_loop_hits:
  "distinct (map fst tbl) \<Longrightarrow>
   snd (score_loop L tbl txt (sc, h)) name =
     (case map_of tbl name of
        None \<Rightarrow> h name
      | Some (pat, weight) \<Rightarrow>
          if re_findall L pat txt = [] then h name
          else Some ((case h name of None \<Rightarrow> 0 | Some c \<Rightarrow> c) + int (length (re_findall L pat txt))))"
proof (induction tbl arbitrary: sc h)
  case Nil
  then show ?case by simp
next
  case (Cons s tbl)
  obtain n p w where s: "s = (n, p, w)" by (cases s)
  from Cons.prems s have d: "distinct (map fst tbl)" and nin: "n \<notin> fst ` set tbl" by auto
  from nin have mo: "map_of tbl n = None" by (simp add: map_of_eq_None_iff)
  show ?case
    using Cons.IH[OF d] mo s by (auto simp: Let_def split: option.splits)
qed

lemma PATTERNS_distinct: "distinct (map fst PATTERNS)"
  by (simp add: PATTERNS_def)

lemma PATTERNS_weights: "(name, pat, weight) \<in> set PATTERNS \<Longrightarrow> 0 < weight"
  by (auto simp: PATTERNS_def)

lemma score_nonneg: "0 \<le> fst (score_text_block L txt)"
proof -
  have "0 \<le> (\<Sum>(name, pat, weight)\<leftarrow>PATTERNS. int (length (re_findall L pat txt)) * weight)"
    by (rule sum_list_nonneg) (auto dest: PATTERNS_weights)
  then show ?thesis by (simp add: score_text_block_def score_loop_total)
qed

text \<open>
  C2. For every text, the total of the pattern scorer is the sum over the signal table of
  the number of matches of the signal's pattern times its weight, and it is not negative.
  The hits hold, for each signal with at least one match, its number of matches, and
  nothing else. The scorer is a function of the library and the text: equal inputs give
  equal results.
\<close>

theorem score_text_block_sum:
  assumes "score_text_block L txt = (score, hits)"
  shows "score = (\<Sum>(name, pat, weight)\<leftarrow>PATTERNS. int (length (re_findall L pat txt)) * weight)
     \<and> 0 \<le> score
     \<and> (\<forall>name pat weight. (name, pat, weight) \<in> set PATTERNS \<longrightarrow>
           hits name = (if re_findall L pat txt = [] then None
                        else Some (int (length (re_findall L pat txt)))))
     \<and> (\<forall>name. name \<notin> fst ` set PATTERNS \<longrightarrow> hits name = None)"
proof -
  from assms have t: "score = fst (score_text_block L txt)" and h: "hits = snd (score_text_block L txt)"
    by simp_all
  have a: "score = (\<Sum>(name, pat, weight)\<leftarrow>PATTERNS. int (length (re_findall L pat txt)) * weight)"
    by (simp add: t score_text_block_def score_loop_total)
  have b: "0 \<le> score" by (simp add: t score_nonneg)
  have hn: "hits n =
     (case map_of PATTERNS n of
        None \<Rightarrow> None
      | Some (pat, weight) \<Rightarrow>
          if re_findall L pat txt = [] then None
          else Some (int (length (re_findall L pat txt))))" for n
    unfolding h score_text_block_def
    by (simp add: score_loop_hits[OF PATTERNS_distinct] split: option.splits)
  have c: "hits name = (if re_findall L pat txt = [] then None
                        else Some (int (length (re_findall L pat txt))))"
    if "(name, pat, weight) \<in> set PATTERNS" for name pat weight
  proof -
    from that have "map_of PATTERNS name = Some (pat, weight)"
      using PATTERNS_distinct by simp
    then show ?thesis by (simp add: hn)
  qed
  have d: "hits name = None" if "name \<notin> fst ` set PATTERNS" for name
  proof -
    from that have "map_of PATTERNS name = None" by (simp add: map_of_eq_None_iff)
    then show ?thesis by (simp add: hn)
  qed
  from a b c d show ?thesis by blast
qed

theorem score_text_block_sum_witness:
  "fst (score_text_block hwy_lib (py ''Hwy Hwy Hwy'')) = 6
   \<and> snd (score_text_block hwy_lib (py ''Hwy Hwy Hwy'')) ''freeway/roads'' = Some 3
   \<and> snd (score_text_block hwy_lib (py ''Hwy Hwy Hwy'')) ''pursuit'' = None
   \<and> snd (score_text_block hwy_lib (py ''Hwy Hwy Hwy'')) ''weather'' = None"
proof -
  obtain score hits where sh: "score_text_block hwy_lib (py ''Hwy Hwy Hwy'') = (score, hits)"
    by (cases "score_text_block hwy_lib (py ''Hwy Hwy Hwy'')")
  have fw: "(''freeway/roads'', signal_pattern ''freeway/roads'', 2) \<in> set PATTERNS"
    by (simp add: PATTERNS_def signal_pattern_def)
  have pu: "(''pursuit'', signal_pattern ''pursuit'', 6) \<in> set PATTERNS"
    by (simp add: PATTERNS_def signal_pattern_def)
  have we: "''weather'' \<notin> fst ` set PATTERNS"
    by (simp add: PATTERNS_def)
  have ev: "(\<Sum>(name, pat, weight)\<leftarrow>PATTERNS.
               int (length (re_findall hwy_lib pat (py ''Hwy Hwy Hwy''))) * weight) = 6"
    by (simp add: hwy_lib_def table_lib_def PATTERNS_def signal_pattern_def py_def hwy_page_def
        element_re_def roads_def)
  have f1: "re_findall hwy_lib (signal_pattern ''freeway/roads'') (py ''Hwy Hwy Hwy'')
              = [py ''Hwy'', py ''Hwy'', py ''Hwy'']"
    by (simp add: hwy_lib_def table_lib_def PATTERNS_def signal_pattern_def py_def hwy_page_def
        element_re_def roads_def)
  have f2: "re_findall hwy_lib (signal_pattern ''pursuit'') (py ''Hwy Hwy Hwy'') = []"
    by (simp add: hwy_lib_def table_lib_def PATTERNS_def signal_pattern_def py_def hwy_page_def
        element_re_def roads_def)
  note T = score_text_block_sum[OF sh]
  from T ev have s6: "score = 6" by simp
  from T have H: "\<forall>name pat weight. (name, pat, weight) \<in> set PATTERNS \<longrightarrow>
           hits name = (if re_findall hwy_lib pat (py ''Hwy Hwy Hwy'') = [] then None
                        else Some (int (length (re_findall hwy_lib pat (py ''Hwy Hwy Hwy'')))))"
    by blast
  from T have N: "\<forall>name. name \<notin> fst ` set PATTERNS \<longrightarrow> hits name = None"
    by blast
  from H[rule_format, OF fw] f1 have h1: "hits ''freeway/roads'' = Some 3" by simp
  from H[rule_format, OF pu] f2 have h2: "hits ''pursuit'' = None" by simp
  from N[rule_format, OF we] have h3: "hits ''weather'' = None" .
  from s6 h1 h2 h3 show ?thesis by (simp add: sh)
qed

section \<open>Properties of the text extractor\<close>

lemma first_index_less:
  "x \<in> set xs \<Longrightarrow> first_index (xs @ ys) x = first_index xs x \<and> first_index xs x < length xs"
  unfolding first_index_def by (induction xs) auto

lemma first_index_notin: "x \<notin> set xs \<Longrightarrow> first_index (xs @ x # ys) x = length xs"
  unfolding first_index_def by (induction xs) auto

text \<open>
  The invariant of the deduplication loop: \<open>pre\<close> is the part of the list already read,
  \<open>u\<close> holds its strings once each, in the order of their first positions.
\<close>

lemma dedup_loop_inv:
  "set u = set pre \<Longrightarrow> seen = set u \<Longrightarrow> distinct u \<Longrightarrow>
   sorted_wrt (<) (map (first_index (pre @ bs)) u) \<Longrightarrow>
   distinct (dedup_loop bs seen u) \<and> set (dedup_loop bs seen u) = set pre \<union> set bs \<and>
   sorted_wrt (<) (map (first_index (pre @ bs)) (dedup_loop bs seen u))"
proof (induction bs arbitrary: u pre seen)
  case Nil
  then show ?case by simp
next
  case (Cons b bs)
  show ?case
  proof (cases "b \<in> seen")
    case True
    have "set u = set (pre @ [b])" using True Cons.prems by auto
    moreover have "sorted_wrt (<) (map (first_index ((pre @ [b]) @ bs)) u)"
      using Cons.prems by simp
    ultimately have "distinct (dedup_loop bs seen u) \<and>
        set (dedup_loop bs seen u) = set (pre @ [b]) \<union> set bs \<and>
        sorted_wrt (<) (map (first_index ((pre @ [b]) @ bs)) (dedup_loop bs seen u))"
      using Cons.prems by (intro Cons.IH) auto
    then show ?thesis using True by auto
  next
    case False
    have a: "set (u @ [b]) = set (pre @ [b])" using Cons.prems by auto
    have b: "insert b seen = set (u @ [b])" using Cons.prems by auto
    have c: "distinct (u @ [b])" using Cons.prems False by auto
    have bn: "b \<notin> set pre" using False Cons.prems by auto
    have "\<forall>x\<in>set u. first_index (pre @ b # bs) x < length pre"
      using Cons.prems(1) first_index_less[of _ pre "b # bs"] by auto
    then have d: "sorted_wrt (<) (map (first_index ((pre @ [b]) @ bs)) (u @ [b]))"
      using Cons.prems(4) first_index_notin[OF bn, of bs] by (auto simp: sorted_wrt_append)
    have "distinct (dedup_loop bs (insert b seen) (u @ [b])) \<and>
      set (dedup_loop bs (insert b seen) (u @ [b])) = set (pre @ [b]) \<union> set bs \<and>
      sorted_wrt (<) (map (first_index ((pre @ [b]) @ bs)) (dedup_loop bs (insert b seen) (u @ [b])))"
      by (rule Cons.IH[OF a b c d])
    then show ?thesis using False by auto
  qed
qed

lemma dedup_loop_props:
  "distinct (dedup_loop bs {} []) \<and> set (dedup_loop bs {} []) = set bs \<and>
   sorted_wrt (<) (map (first_index bs) (dedup_loop bs {} []))"
  using dedup_loop_inv[of "[]" "[]" "{}" bs] by simp

lemma sorted_wrt_take: "sorted_wrt P xs \<Longrightarrow> sorted_wrt P (take n xs)"
proof -
  assume "sorted_wrt P xs"
  then have "sorted_wrt P (take n xs @ drop n xs)" by simp
  then show ?thesis unfolding sorted_wrt_append by blast
qed

text \<open>
  C8. For every HTML input, the output of the text extractor holds no string twice, lists
  its strings in the order in which they first appear among the extracted blocks, and has
  at most 600 entries: it is the first 600 of the distinct blocks.
\<close>

theorem extract_text_blocks_distinct_ordered_capped:
  "distinct (extract_text_blocks L html)
   \<and> sorted_wrt (<) (map (first_index (candidate_blocks L html)) (extract_text_blocks L html))
   \<and> set (extract_text_blocks L html) \<subseteq> set (candidate_blocks L html)
   \<and> length (extract_text_blocks L html) \<le> 600
   \<and> length (extract_text_blocks L html) = min 600 (card (set (candidate_blocks L html)))"
proof -
  let ?bs = "candidate_blocks L html"
  let ?full = "dedup_loop ?bs {} []"
  note P = dedup_loop_props[of ?bs]
  have e: "extract_text_blocks L html = take 600 ?full"
    by (simp add: extract_text_blocks_def)
  have d: "distinct (take 600 ?full)" using P by simp
  have s: "sorted_wrt (<) (map (first_index ?bs) (take 600 ?full))"
    using P sorted_wrt_take[of "(<)" "map (first_index ?bs) ?full" 600] by (simp add: take_map)
  have sub: "set (take 600 ?full) \<subseteq> set ?bs" using P set_take_subset[of 600 ?full] by simp
  have "length ?full = card (set ?bs)" using P distinct_card[of ?full] by simp
  then have l: "length (take 600 ?full) = min 600 (card (set ?bs))" by (simp add: min.commute)
  from d s sub l show ?thesis unfolding e by simp
qed

section \<open>Properties of the snippet selector\<close>

lemma rsplit_space_first_cut:
  assumes "SP \<in> set t"
  shows "\<exists>kept rest. t = kept @ SP # rest \<and> SP \<notin> set rest \<and> rsplit_space_first t = kept"
proof -
  from split_list_last[OF assms] obtain ys zs where t: "t = ys @ SP # zs" and n: "SP \<notin> set zs"
    by blast
  have "dropWhile (\<lambda>c. c \<noteq> SP) (rev zs @ SP # rev ys) = dropWhile (\<lambda>c. c \<noteq> SP) (SP # rev ys)"
    using n by (intro dropWhile_append2) auto
  then have "rsplit_space_first t = ys"
    using assms by (simp add: rsplit_space_first_def t)
  with t n show ?thesis by blast
qed

lemma rsplit_space_first_length: "length (rsplit_space_first t) \<le> length t"
proof (cases "SP \<in> set t")
  case True
  from rsplit_space_first_cut[OF True] obtain kept rest
    where "t = kept @ SP # rest" and "rsplit_space_first t = kept" by blast
  then have "length t = length (rsplit_space_first t) + 1 + length rest" by simp
  then show ?thesis by simp
next
  case False
  then show ?thesis by (simp add: rsplit_space_first_def)
qed

lemma truncate_snippet_length: "length (truncate_snippet s) \<le> 702"
  using rsplit_space_first_length[of "take 700 s"]
  by (simp add: truncate_snippet_def)

lemma truncate_snippet_at_space:
  assumes "length s > 700" and "SP \<in> set (take 700 s)"
  shows "\<exists>kept rest. s = kept @ SP # rest \<and> truncate_snippet s = kept @ [SP, ELLIPSIS]
           \<and> length kept < 700 \<and> SP \<notin> set (take (699 - length kept) rest)"
proof -
  from rsplit_space_first_cut[OF assms(2)] obtain kept r
    where t: "take 700 s = kept @ SP # r" and n: "SP \<notin> set r"
      and k: "rsplit_space_first (take 700 s) = kept"
    by blast
  have len: "length (take 700 s) = 700" using assms(1) by simp
  then have lk: "length kept + 1 + length r = 700" by (simp add: t)
  have "s = take 700 s @ drop 700 s" by simp
  then have s: "s = kept @ SP # (r @ drop 700 s)" by (simp add: t)
  have "take (699 - length kept) (r @ drop 700 s) = r" using lk by simp
  then have "SP \<notin> set (take (699 - length kept) (r @ drop 700 s))" using n by simp
  moreover have "truncate_snippet s = kept @ [SP, ELLIPSIS]"
    using assms(1) k by (simp add: truncate_snippet_def)
  moreover have "length kept < 700" using lk by simp
  ultimately show ?thesis using s by blast
qed

lemma best_sentence_snippet_excerpt:
  "fst (best_sentence_snippet L block) = Some s \<Longrightarrow> s = truncate_snippet (excerpt L block)"
  by (auto simp: best_sentence_snippet_def excerpt_def Let_def split: if_splits prod.splits)

text \<open>
  C4, as amended. A snippet has at most 700 characters plus the two characters of the
  marker. An excerpt of at most 700 characters is returned as it is. A longer excerpt whose
  first 700 characters hold a space is cut at the last such space: the text kept is
  followed by a space in the excerpt, and no space lies between the cut and position 700.
  A longer excerpt whose first 700 characters hold no space keeps these 700 characters.
\<close>

theorem snippet_length_and_cut:
  assumes "fst (best_sentence_snippet L block) = Some s"
  shows "length s \<le> 700 + length [SP, ELLIPSIS]
     \<and> (length (excerpt L block) \<le> 700 \<longrightarrow> s = excerpt L block)
     \<and> (length (excerpt L block) > 700 \<and> SP \<in> set (take 700 (excerpt L block)) \<longrightarrow>
          (\<exists>kept rest. excerpt L block = kept @ SP # rest \<and> s = kept @ [SP, ELLIPSIS]
             \<and> length kept < 700 \<and> SP \<notin> set (take (699 - length kept) rest)))
     \<and> (length (excerpt L block) > 700 \<and> SP \<notin> set (take 700 (excerpt L block)) \<longrightarrow>
          s = take 700 (excerpt L block) @ [SP, ELLIPSIS])"
proof -
  note e = best_sentence_snippet_excerpt[OF assms]
  have a: "length s \<le> 700 + length [SP, ELLIPSIS]"
    using truncate_snippet_length[of "excerpt L block"] by (simp add: e)
  have b: "length (excerpt L block) \<le> 700 \<longrightarrow> s = excerpt L block"
    by (simp add: e truncate_snippet_def)
  have c: "length (excerpt L block) > 700 \<and> SP \<in> set (take 700 (excerpt L block)) \<longrightarrow>
          (\<exists>kept rest. excerpt L block = kept @ SP # rest \<and> s = kept @ [SP, ELLIPSIS]
             \<and> length kept < 700 \<and> SP \<notin> set (take (699 - length kept) rest))"
    using truncate_snippet_at_space[of "excerpt L block"] unfolding e by blast
  have d: "length (excerpt L block) > 700 \<and> SP \<notin> set (take 700 (excerpt L block)) \<longrightarrow>
          s = take 700 (excerpt L block) @ [SP, ELLIPSIS]"
    by (simp add: e truncate_snippet_def rsplit_space_first_def)
  from a b c d show ?thesis by blast
qed

subsection \<open>Blocks of one sentence without a match\<close>

lemma plain_lib_score: "score_text_block plain_lib txt = (0, Map.empty)"
  by (simp add: score_text_block_def PATTERNS_def plain_lib_def table_lib_def)

lemma plain_lib_split: "re_split plain_lib p s = [s]"
  by (simp add: plain_lib_def table_lib_def)

lemma dropWhile_hd: "xs \<noteq> [] \<Longrightarrow> \<not> P (hd xs) \<Longrightarrow> dropWhile P xs = xs"
  by (cases xs) auto

lemma py_strip_id:
  assumes "s \<noteq> []" and "\<not> py_isspace (hd s)" and "\<not> py_isspace (last s)"
  shows "py_strip s = s"
proof -
  have "dropWhile py_isspace s = s" using assms by (simp add: dropWhile_hd)
  moreover have "dropWhile py_isspace (rev s) = rev s"
    using assms by (intro dropWhile_hd) (simp_all add: hd_rev)
  ultimately show ?thesis by (simp add: py_strip_def)
qed

lemma plain_sentences:
  assumes "py_replace_char NL SP s = s" and "py_strip s = s" and "s \<noteq> []"
  shows "split_into_sentences plain_lib s = [s]"
  using assms by (simp add: split_into_sentences_def plain_lib_split)

lemma plain_excerpt:
  assumes "py_replace_char NL SP s = s" and "py_strip s = s" and "s \<noteq> []"
  shows "excerpt plain_lib s = s"
  using assms(2)
  by (simp add: excerpt_def plain_sentences[OF assms] plain_lib_score snippet_window_def)

lemma plain_snippet:
  assumes "py_replace_char NL SP s = s" and "py_strip s = s" and "s \<noteq> []"
  shows "best_sentence_snippet plain_lib s = (Some (truncate_snippet s), 0, Map.empty)"
  using assms(2)
  by (simp add: best_sentence_snippet_def plain_sentences[OF assms] plain_lib_score
      snippet_window_def)

lemma not_space_z: "\<not> py_isspace 122"
  by (simp add: py_isspace_def)

lemma long_word_facts:
  "py_replace_char NL SP long_word = long_word" "py_strip long_word = long_word" "long_word \<noteq> []"
proof -
  show "py_replace_char NL SP long_word = long_word"
    by (simp add: py_replace_char_def long_word_def NL_def)
  show "long_word \<noteq> []" by (simp add: long_word_def)
  then show "py_strip long_word = long_word"
    by (rule py_strip_id) (simp_all add: long_word_def not_space_z)
qed

lemma long_word_truncated: "truncate_snippet long_word = replicate 700 122 @ [SP, ELLIPSIS]"
  by (simp add: truncate_snippet_def long_word_def rsplit_space_first_def SP_def)

lemma two_words_facts:
  "py_replace_char NL SP two_words = two_words" "py_strip two_words = two_words" "two_words \<noteq> []"
proof -
  show "py_replace_char NL SP two_words = two_words"
    by (simp add: py_replace_char_def two_words_def NL_def SP_def)
  show "two_words \<noteq> []" by (simp add: two_words_def)
  then show "py_strip two_words = two_words"
    by (rule py_strip_id) (simp_all add: two_words_def not_space_z)
qed

lemma short_word_facts:
  "py_replace_char NL SP short_word = short_word" "py_strip short_word = short_word"
  "short_word \<noteq> []"
  by (simp_all add: py_replace_char_def short_word_def py_def NL_def py_strip_def py_isspace_def)

text \<open>
  The claim as stated fails on a block that is one word of 701 letters: the snippet is the
  first 700 letters and the marker, and the letters on both sides of the cut belong to the
  same word.
\<close>

theorem snippet_cut_inside_word_counterexample:
  "fst (best_sentence_snippet plain_lib long_word) = Some (take 700 long_word @ [SP, ELLIPSIS])
   \<and> length long_word > 700
   \<and> \<not> py_isspace (long_word ! 699) \<and> \<not> py_isspace (long_word ! 700)"
proof -
  have "take 700 long_word = replicate 700 122" by (simp add: long_word_def)
  then have "fst (best_sentence_snippet plain_lib long_word)
               = Some (take 700 long_word @ [SP, ELLIPSIS])"
    by (simp add: plain_snippet[OF long_word_facts] long_word_truncated)
  moreover have "length long_word > 700" by (simp add: long_word_def)
  moreover have "long_word ! 699 = 122" "long_word ! 700 = 122" by (simp_all add: long_word_def)
  ultimately show ?thesis by (simp add: not_space_z)
qed

theorem snippet_length_and_cut_witness:
  "fst (best_sentence_snippet plain_lib long_word) = Some (replicate 700 122 @ [SP, ELLIPSIS])
   \<and> length (replicate 700 122 @ [SP, ELLIPSIS]) \<le> 700 + length [SP, ELLIPSIS]
   \<and> length (excerpt plain_lib long_word) > 700
   \<and> SP \<notin> set (take 700 (excerpt plain_lib long_word))
   \<and> replicate 700 122 @ [SP, ELLIPSIS] = take 700 (excerpt plain_lib long_word) @ [SP, ELLIPSIS]
   \<and> length (excerpt plain_lib two_words) > 700
   \<and> SP \<in> set (take 700 (excerpt plain_lib two_words))
   \<and> (\<exists>kept rest. excerpt plain_lib two_words = kept @ SP # rest
         \<and> truncate_snippet two_words = kept @ [SP, ELLIPSIS]
         \<and> length kept < 700 \<and> SP \<notin> set (take (699 - length kept) rest))
   \<and> length (excerpt plain_lib short_word) \<le> 700
   \<and> fst (best_sentence_snippet plain_lib short_word) = Some (excerpt plain_lib short_word)"
proof -
  have f: "fst (best_sentence_snippet plain_lib long_word) = Some (replicate 700 122 @ [SP, ELLIPSIS])"
    by (simp add: plain_snippet[OF long_word_facts] long_word_truncated)
  have l: "length (excerpt plain_lib long_word) > 700"
    unfolding plain_excerpt[OF long_word_facts] by (simp add: long_word_def)
  have n: "SP \<notin> set (take 700 (excerpt plain_lib long_word))"
    unfolding plain_excerpt[OF long_word_facts] by (simp add: long_word_def SP_def)
  have f2: "fst (best_sentence_snippet plain_lib two_words) = Some (truncate_snippet two_words)"
    by (simp add: plain_snippet[OF two_words_facts])
  have l2: "length (excerpt plain_lib two_words) > 700"
    unfolding plain_excerpt[OF two_words_facts] by (simp add: two_words_def)
  have i2: "SP \<in> set (take 700 (excerpt plain_lib two_words))"
    unfolding plain_excerpt[OF two_words_facts] by (simp add: two_words_def)
  have l3: "length (excerpt plain_lib short_word) \<le> 700"
    unfolding plain_excerpt[OF short_word_facts] by (simp add: short_word_def py_def)
  have "truncate_snippet short_word = short_word"
    by (simp add: truncate_snippet_def short_word_def py_def)
  then have f3: "fst (best_sentence_snippet plain_lib short_word) = Some (excerpt plain_lib short_word)"
    by (simp add: plain_snippet[OF short_word_facts] plain_excerpt[OF short_word_facts])
  note A = snippet_length_and_cut[OF f]
  note B = snippet_length_and_cut[OF f2]
  from A have c2: "length (replicate 700 122 @ [SP, ELLIPSIS]) \<le> 700 + length [SP, ELLIPSIS]"
    by (rule conjunct1)
  from A l n have c5: "replicate 700 122 @ [SP, ELLIPSIS]
      = take 700 (excerpt plain_lib long_word) @ [SP, ELLIPSIS]"
    by blast
  from B l2 i2 have c8: "\<exists>kept rest. excerpt plain_lib two_words = kept @ SP # rest
         \<and> truncate_snippet two_words = kept @ [SP, ELLIPSIS]
         \<and> length kept < 700 \<and> SP \<notin> set (take (699 - length kept) rest)"
    by blast
  show ?thesis
    by (intro conjI) (rule f c2 l n c5 l2 i2 c8 l3 f3)+
qed

section \<open>Properties of the page scanner\<close>

text \<open>
  The loop over the blocks keeps the running best unless a block offers a snippet with a
  strictly higher score: the result is the start value or the triple of some block, and no
  block with a snippet scores higher than the result.
\<close>

lemma scan_loop_result:
  "scan_loop L blocks (sn0, s0, h0) = (sn, s, h) \<Longrightarrow>
     ((sn, s, h) = (sn0, s0, h0)
        \<or> (\<exists>block \<in> set blocks. best_sentence_snippet L block = (sn, s, h) \<and> truthy sn))
     \<and> s0 \<le> s
     \<and> (\<forall>block \<in> set blocks. truthy (fst (best_sentence_snippet L block)) \<longrightarrow>
            fst (snd (best_sentence_snippet L block)) \<le> s)"
proof (induction blocks arbitrary: sn0 s0 h0)
  case Nil
  then show ?case by simp
next
  case (Cons b blocks)
  obtain sb scb hb where b: "best_sentence_snippet L b = (sb, scb, hb)"
    by (cases "best_sentence_snippet L b")
  show ?case
  proof (cases "scb > s0 \<and> truthy sb")
    case True
    with Cons.prems b have "scan_loop L blocks (sb, scb, hb) = (sn, s, h)" by simp
    from Cons.IH[OF this] True b show ?thesis by auto
  next
    case False
    with Cons.prems b have "scan_loop L blocks (sn0, s0, h0) = (sn, s, h)" by auto
    from Cons.IH[OF this] False b show ?thesis by auto
  qed
qed

lemma scan_page_Some:
  assumes "scan_page_for_chase L E url = Some f"
  shows "\<exists>status_code ctype.
           http_get E url = Response status_code ctype (f_html f)
         \<and> page_has_core L (f_html f)
         \<and> MIN_SCORE_TO_LOG \<le> f_score f
         \<and> truthy (Some (f_text f))
         \<and> f_url f = url
         \<and> scan_loop L (extract_text_blocks L (f_html f)) (None, 0, Map.empty)
             = (Some (f_text f), f_score f, f_hits f)"
proof (cases "http_get E url")
  case RequestException
  with assms show ?thesis by (simp add: scan_page_for_chase_def)
next
  case (Response status_code ctype body)
  obtain sn s h where sl: "scan_loop L (extract_text_blocks L body) (None, 0, Map.empty) = (sn, s, h)"
    by (cases "scan_loop L (extract_text_blocks L body) (None, 0, Map.empty)")
  from assms Response sl have c: "page_has_core L body" "\<not> s < MIN_SCORE_TO_LOG" "truthy sn"
    and f: "f = \<lparr> f_url = url, f_score = s, f_confidence = min 100 (s * 10),
                   f_text = the sn, f_hits = h, f_html = body \<rparr>"
    by (auto simp: scan_page_for_chase_def Let_def split: if_splits)
  from c(3) have sn: "sn = Some (the sn)" by (auto simp: truthy_def)
  show ?thesis
    using Response c sl sn f by (auto simp: truthy_def)
qed

text \<open>
  C1. A page whose raw HTML matches no core pattern gives no finding, whatever its
  blocks score. A finding is returned only for a response whose raw HTML matches a core
  pattern, with a score of at least 6 and a snippet that is not empty; score and snippet
  are those of one extracted block, and no extracted block with a snippet scores higher.
\<close>

theorem scan_page_core_gate:
  "(http_get E url = Response status_code ctype html
      \<and> (\<forall>pat \<in> set CORE_PATTERNS. \<not> re_search L pat html)
      \<longrightarrow> scan_page_for_chase L E url = None)
   \<and> (scan_page_for_chase L E url = Some f \<longrightarrow>
        (\<exists>status_code ctype. http_get E url = Response status_code ctype (f_html f))
        \<and> (\<exists>pat \<in> set CORE_PATTERNS. re_search L pat (f_html f))
        \<and> 6 \<le> f_score f
        \<and> f_text f \<noteq> []
        \<and> (\<exists>block \<in> set (extract_text_blocks L (f_html f)).
              best_sentence_snippet L block = (Some (f_text f), f_score f, f_hits f))
        \<and> (\<forall>block \<in> set (extract_text_blocks L (f_html f)).
              truthy (fst (best_sentence_snippet L block)) \<longrightarrow>
              fst (snd (best_sentence_snippet L block)) \<le> f_score f))"
proof (intro conjI impI)
  assume a: "http_get E url = Response status_code ctype html
      \<and> (\<forall>pat \<in> set CORE_PATTERNS. \<not> re_search L pat html)"
  then have "\<not> page_has_core L html" by (simp add: page_has_core_def list_ex_iff)
  with a show "scan_page_for_chase L E url = None"
    by (auto simp: scan_page_for_chase_def Let_def split: prod.splits)
next
  assume "scan_page_for_chase L E url = Some f"
  from scan_page_Some[OF this] obtain status_code ctype where
    r: "http_get E url = Response status_code ctype (f_html f)"
    and c: "page_has_core L (f_html f)"
    and m: "MIN_SCORE_TO_LOG \<le> f_score f"
    and t: "truthy (Some (f_text f))"
    and sl: "scan_loop L (extract_text_blocks L (f_html f)) (None, 0, Map.empty)
             = (Some (f_text f), f_score f, f_hits f)"
    by blast
  note R = scan_loop_result[OF sl]
  show "\<exists>status_code ctype. http_get E url = Response status_code ctype (f_html f)"
    using r by blast
  show "\<exists>pat \<in> set CORE_PATTERNS. re_search L pat (f_html f)"
    using c by (simp add: page_has_core_def list_ex_iff)
  show "6 \<le> f_score f" using m by (simp add: MIN_SCORE_TO_LOG_def)
  show "f_text f \<noteq> []" using t by (simp add: truthy_def)
  show "\<exists>block \<in> set (extract_text_blocks L (f_html f)).
              best_sentence_snippet L block = (Some (f_text f), f_score f, f_hits f)"
    using R by auto
  show "\<forall>block \<in> set (extract_text_blocks L (f_html f)).
              truthy (fst (best_sentence_snippet L block)) \<longrightarrow>
              fst (snd (best_sentence_snippet L block)) \<le> f_score f"
    using R by blast
qed

lemmas example_defs = hwy_lib_def pursuit_lib_def table_lib_def signal_pattern_def PATTERNS_def
  CORE_PATTERNS_def CORE_NAMES_def element_re_def roads_def hwy_page_def pursuit_page_def py_def
  serve_def

lemmas scan_defs = scan_page_for_chase_def extract_text_blocks_def candidate_blocks_def
  strip_scripts_and_styles_def inner_text_def any_pattern_found_def py_strip_def py_isspace_def
  page_has_core_def best_sentence_snippet_def split_into_sentences_def py_replace_char_def
  score_text_block_def snippet_window_def truncate_snippet_def truthy_def MIN_SCORE_TO_LOG_def
  NL_def SP_def

lemma hwy_no_core: "\<not> page_has_core hwy_lib hwy_page"
  by (simp add: page_has_core_def example_defs)

lemma hwy_blocks: "extract_text_blocks hwy_lib hwy_page = [py ''Hwy Hwy Hwy'']"
  by (simp add: scan_defs example_defs)

lemma hwy_score: "fst (snd (best_sentence_snippet hwy_lib (py ''Hwy Hwy Hwy''))) = 6"
  by (simp add: scan_defs example_defs)

lemma pursuit_scan:
  "map_option (\<lambda>f. (f_url f, f_score f, f_confidence f, f_text f, f_html f))
     (scan_page_for_chase pursuit_lib (serve pursuit_page) (py ''https://smdp.com''))
   = Some (py ''https://smdp.com'', 6, 60, py ''Pursuit'', pursuit_page)"
  by (simp add: scan_defs example_defs)

theorem scan_page_core_gate_witness:
  "\<not> list_ex (\<lambda>pat. re_search hwy_lib pat hwy_page) CORE_PATTERNS
   \<and> extract_text_blocks hwy_lib hwy_page = [py ''Hwy Hwy Hwy'']
   \<and> fst (snd (best_sentence_snippet hwy_lib (py ''Hwy Hwy Hwy''))) = 6
   \<and> scan_page_for_chase hwy_lib (serve hwy_page) (py ''https://smdp.com'') = None
   \<and> map_option f_score (scan_page_for_chase pursuit_lib (serve pursuit_page) (py ''https://smdp.com''))
       = Some 6
   \<and> list_ex (\<lambda>pat. re_search pursuit_lib pat pursuit_page) CORE_PATTERNS"
proof -
  let ?u = "py ''https://smdp.com''"
  have r: "http_get (serve hwy_page) ?u = Response 200 (Some (py ''text/html'')) hwy_page"
    by (simp add: serve_def)
  have nc: "\<forall>pat \<in> set CORE_PATTERNS. \<not> re_search hwy_lib pat hwy_page"
    using hwy_no_core by (simp add: page_has_core_def list_ex_iff)
  have n: "scan_page_for_chase hwy_lib (serve hwy_page) ?u = None"
    using scan_page_core_gate[of "serve hwy_page" ?u 200 "Some (py ''text/html'')" hwy_page hwy_lib]
      r nc by blast
  from pursuit_scan obtain f where
    f: "scan_page_for_chase pursuit_lib (serve pursuit_page) ?u = Some f"
    and fs: "f_score f = 6" and fh: "f_html f = pursuit_page"
    by (cases "scan_page_for_chase pursuit_lib (serve pursuit_page) ?u") auto
  from scan_page_core_gate[of "serve pursuit_page" ?u _ _ _ pursuit_lib f] f
  have "\<exists>pat \<in> set CORE_PATTERNS. re_search pursuit_lib pat (f_html f)" by blast
  then have c: "list_ex (\<lambda>pat. re_search pursuit_lib pat pursuit_page) CORE_PATTERNS"
    by (simp add: fh list_ex_iff)
  from nc have "\<not> list_ex (\<lambda>pat. re_search hwy_lib pat hwy_page) CORE_PATTERNS"
    by (simp add: list_ex_iff)
  with hwy_blocks hwy_score n f fs c show ?thesis by simp
qed

section \<open>Properties of the title and link resolver\<close>

lemma title_score_pos_iff:
  "0 < title_score L txt \<longleftrightarrow> \<not> (fst (score_text_block L txt) = 0 \<and> \<not> re_search L LIVE_RE txt)"
  using score_nonneg[of L "txt"] by (auto simp: title_score_def Let_def)

text \<open>
  Both loops replace the running best only by a candidate that scores strictly higher:
  the result is the start value, or a candidate of the list with a score above the start.
  The loop over the anchors raises only when joining the link of such a candidate.
\<close>

lemma anchors_loop_result:
  "anchors_loop L base_url anchors (t0, h0, s0) = Inr (t, h, s) \<Longrightarrow>
     s0 \<le> s \<and>
     ((t, h, s) = (t0, h0, s0)
      \<or> (\<exists>(txt, href) \<in> set anchors.
            t = Some txt \<and> h = urljoin L base_url href \<and> h \<noteq> None
            \<and> s = title_score L txt \<and> s0 < s))"
proof (induction anchors arbitrary: t0 h0 s0)
  case Nil
  then show ?case by simp
next
  case (Cons a anchors)
  obtain tx href where a: "a = (tx, href)" by (cases a)
  show ?case
  proof (cases "title_score L tx > s0")
    case True
    with Cons.prems a obtain joined where j: "urljoin L base_url href = Some joined"
      and r: "anchors_loop L base_url anchors (Some tx, Some joined, title_score L tx) = Inr (t, h, s)"
      by (cases "urljoin L base_url href") simp_all
    from Cons.IH[OF r] True a j show ?thesis by auto
  next
    case False
    with Cons.prems a have "anchors_loop L base_url anchors (t0, h0, s0) = Inr (t, h, s)" by simp
    from Cons.IH[OF this] a show ?thesis by auto
  qed
qed

lemma anchors_loop_raise:
  "anchors_loop L base_url anchors (t0, h0, s0) = Inl e \<Longrightarrow>
     e = ValueError
     \<and> (\<exists>(txt, href) \<in> set anchors. s0 < title_score L txt \<and> urljoin L base_url href = None)"
proof (induction anchors arbitrary: t0 h0 s0)
  case Nil
  then show ?case by simp
next
  case (Cons a anchors)
  obtain tx href where a: "a = (tx, href)" by (cases a)
  show ?case
  proof (cases "title_score L tx > s0")
    case True
    show ?thesis
    proof (cases "urljoin L base_url href")
      case None
      with Cons.prems a True show ?thesis by simp
    next
      case (Some joined)
      with Cons.prems a True
      have "anchors_loop L base_url anchors (Some tx, Some joined, title_score L tx) = Inl e"
        by simp
      from Cons.IH[OF this] True show ?thesis by force
    qed
  next
    case False
    with Cons.prems a have "anchors_loop L base_url anchors (t0, h0, s0) = Inl e" by simp
    from Cons.IH[OF this] show ?thesis by auto
  qed
qed

lemma headings_loop_result:
  "headings_loop L headings (t0, h0, s0) = (t, h, s) \<Longrightarrow>
     s0 \<le> s \<and>
     ((t, h, s) = (t0, h0, s0)
      \<or> (\<exists>txt \<in> set headings. t = Some txt \<and> h = None \<and> s = title_score L txt \<and> s0 < s))"
proof (induction headings arbitrary: t0 h0 s0)
  case Nil
  then show ?case by simp
next
  case (Cons tx headings)
  show ?case
  proof (cases "title_score L tx > s0")
    case True
    with Cons.prems
    have "headings_loop L headings (Some tx, None, title_score L tx) = (t, h, s)" by simp
    from Cons.IH[OF this] True show ?thesis by auto
  next
    case False
    with Cons.prems have "headings_loop L headings (t0, h0, s0) = (t, h, s)" by simp
    from Cons.IH[OF this] show ?thesis by auto
  qed
qed

lemma choose_best_cases:
  assumes "choose_best_title_and_link L html base_url = Inr (t, h)"
  shows "(t = None \<and> h = None)
     \<or> (\<exists>(txt, href) \<in> set (extract_anchors L html).
           t = Some txt \<and> h = urljoin L base_url href \<and> h \<noteq> None \<and> 0 < title_score L txt)
     \<or> (\<exists>txt \<in> set (extract_headings L html). t = Some txt \<and> h = None \<and> 0 < title_score L txt)"
proof -
  from assms obtain t1 h1 s1 where
    a: "anchors_loop L base_url (extract_anchors L html) (None, None, 0) = Inr (t1, h1, s1)"
    by (cases "anchors_loop L base_url (extract_anchors L html) (None, None, 0)")
       (auto simp: choose_best_title_and_link_def Let_def)
  obtain s2 where b: "headings_loop L (extract_headings L html) (t1, h1, s1) = (t, h, s2)"
    using assms a
    by (cases "headings_loop L (extract_headings L html) (t1, h1, s1)")
       (auto simp: choose_best_title_and_link_def Let_def)
  note A = anchors_loop_result[OF a]
  note B = headings_loop_result[OF b]
  from B show ?thesis
  proof (elim conjE disjE)
    assume "(t, h, s2) = (t1, h1, s1)"
    with A show ?thesis by auto
  next
    assume "s1 \<le> s2"
      and "\<exists>txt \<in> set (extract_headings L html).
             t = Some txt \<and> h = None \<and> s2 = title_score L txt \<and> s1 < s2"
    with A show ?thesis by force
  qed
qed

lemma choose_best_raise:
  assumes "choose_best_title_and_link L html base_url = Inl e"
  shows "e = ValueError
     \<and> (\<exists>(txt, href) \<in> set (extract_anchors L html).
           0 < title_score L txt \<and> urljoin L base_url href = None)"
proof -
  from assms have "anchors_loop L base_url (extract_anchors L html) (None, None, 0) = Inl e"
    by (cases "anchors_loop L base_url (extract_anchors L html) (None, None, 0)")
       (auto simp: choose_best_title_and_link_def Let_def split: prod.splits)
  from anchors_loop_raise[OF this] show ?thesis .
qed

text \<open>
  C9. When every anchor text and every heading text scores 0 and holds no word "live", the
  resolver returns no title and no link. A title is returned only for an anchor text or a
  heading text whose score plus the bonus for "live" is strictly positive. When the
  resolver returns no title, the main loop takes the snippet of the finding as title. The
  resolver raises only when \<open>urljoin\<close> does, on the link of an anchor with a positive
  score.
\<close>

theorem choose_best_title_needs_positive_score:
  "((\<forall>(txt, href) \<in> set (extract_anchors L html).
         fst (score_text_block L txt) = 0 \<and> \<not> re_search L LIVE_RE txt)
     \<and> (\<forall>txt \<in> set (extract_headings L html).
         fst (score_text_block L txt) = 0 \<and> \<not> re_search L LIVE_RE txt)
     \<longrightarrow> choose_best_title_and_link L html base_url = Inr (None, None))
   \<and> (choose_best_title_and_link L html base_url = Inr (Some title, link) \<longrightarrow>
        (title \<in> fst ` set (extract_anchors L html) \<or> title \<in> set (extract_headings L html))
        \<and> 0 < fst (score_text_block L title) + (if re_search L LIVE_RE title then 6 else 0))
   \<and> (choose_best_title_and_link L (f_html result) (f_url result) = Inr (None, link) \<longrightarrow>
        title_for L result = Inr (f_text result, link))
   \<and> (choose_best_title_and_link L html base_url = Inl e \<longrightarrow>
        e = ValueError
        \<and> (\<exists>(txt, href) \<in> set (extract_anchors L html).
              0 < title_score L txt \<and> urljoin L base_url href = None))"
proof -
  have a: "choose_best_title_and_link L html base_url = Inr (None, None)"
    if h: "(\<forall>(txt, href) \<in> set (extract_anchors L html).
         fst (score_text_block L txt) = 0 \<and> \<not> re_search L LIVE_RE txt)
     \<and> (\<forall>txt \<in> set (extract_headings L html).
         fst (score_text_block L txt) = 0 \<and> \<not> re_search L LIVE_RE txt)"
  proof (cases "choose_best_title_and_link L html base_url")
    case (Inl e)
    from choose_best_raise[OF Inl] h show ?thesis by (auto simp: title_score_pos_iff)
  next
    case (Inr p)
    obtain t l where p: "p = (t, l)" by (cases p)
    from choose_best_cases[OF Inr[unfolded p]] h have "t = None \<and> l = None"
      by (auto simp: title_score_pos_iff)
    with Inr p show ?thesis by simp
  qed
  have b: "(title \<in> fst ` set (extract_anchors L html) \<or> title \<in> set (extract_headings L html))
        \<and> 0 < fst (score_text_block L title) + (if re_search L LIVE_RE title then 6 else 0)"
    if c: "choose_best_title_and_link L html base_url = Inr (Some title, link)"
  proof -
    from choose_best_cases[OF c]
    have m: "title \<in> fst ` set (extract_anchors L html) \<or> title \<in> set (extract_headings L html)"
      and p: "0 < title_score L title" by force+
    from p have "0 < fst (score_text_block L title) + (if re_search L LIVE_RE title then 6 else 0)"
      by (simp add: title_score_def Let_def split: if_splits)
    with m show ?thesis by simp
  qed
  have c: "title_for L result = Inr (f_text result, link)"
    if "choose_best_title_and_link L (f_html result) (f_url result) = Inr (None, link)"
    using that by (simp add: title_for_def truthy_def)
  have d: "e = ValueError
        \<and> (\<exists>(txt, href) \<in> set (extract_anchors L html).
              0 < title_score L txt \<and> urljoin L base_url href = None)"
    if "choose_best_title_and_link L html base_url = Inl e"
    using choose_best_raise[OF that] .
  from a b c d show ?thesis by blast
qed

lemmas title_defs = choose_best_title_and_link_def extract_anchors_def extract_headings_def
  title_score_def title_for_def LIVE_RE_def BLOCKED_ELEMENT_RE_def

lemma news_scan:
  "map_option (\<lambda>f. (f_url f, f_score f, f_text f, f_html f))
     (scan_page_for_chase news_lib (serve news_page) (py ''https://smdp.com''))
   = Some (py ''https://smdp.com'', 6, py ''Pursuit'', news_page)"
  by (simp add: scan_defs example_defs news_lib_def news_page_def)

lemma news_headings: "extract_headings news_lib news_page = [py ''News'']"
  by (simp add: scan_defs title_defs example_defs news_lib_def news_page_def)

lemma news_anchors: "extract_anchors news_lib news_page = []"
  by (simp add: title_defs example_defs news_lib_def news_page_def)

lemma news_heading_score:
  "fst (score_text_block news_lib (py ''News'')) = 0 \<and> \<not> re_search news_lib LIVE_RE (py ''News'')"
  by (simp add: scan_defs title_defs example_defs news_lib_def news_page_def)

lemma pursuit_choose:
  "choose_best_title_and_link pursuit_lib pursuit_page (py ''https://smdp.com'')
     = Inr (Some (py ''Pursuit''), None)"
  by (simp add: scan_defs title_defs example_defs)

theorem choose_best_title_needs_positive_score_witness:
  "extract_headings news_lib news_page = [py ''News'']
   \<and> extract_anchors news_lib news_page = []
   \<and> fst (score_text_block news_lib (py ''News'')) = 0
   \<and> \<not> re_search news_lib LIVE_RE (py ''News'')
   \<and> choose_best_title_and_link news_lib news_page (py ''https://smdp.com'') = Inr (None, None)
   \<and> (\<exists>f. scan_page_for_chase news_lib (serve news_page) (py ''https://smdp.com'') = Some f
          \<and> title_for news_lib f = Inr (py ''Pursuit'', None))
   \<and> choose_best_title_and_link pursuit_lib pursuit_page (py ''https://smdp.com'')
       = Inr (Some (py ''Pursuit''), None)
   \<and> 0 < fst (score_text_block pursuit_lib (py ''Pursuit''))
          + (if re_search pursuit_lib LIVE_RE (py ''Pursuit'') then 6 else 0)"
proof -
  let ?u = "py ''https://smdp.com''"
  have h: "(\<forall>(txt, href) \<in> set (extract_anchors news_lib news_page).
         fst (score_text_block news_lib txt) = 0 \<and> \<not> re_search news_lib LIVE_RE txt)
     \<and> (\<forall>txt \<in> set (extract_headings news_lib news_page).
         fst (score_text_block news_lib txt) = 0 \<and> \<not> re_search news_lib LIVE_RE txt)"
    using news_heading_score by (simp add: news_headings news_anchors)
  from choose_best_title_needs_positive_score[of news_lib news_page ?u] h
  have n: "choose_best_title_and_link news_lib news_page ?u = Inr (None, None)" by blast
  from news_scan obtain f where
    f: "scan_page_for_chase news_lib (serve news_page) ?u = Some f"
    and fu: "f_url f = ?u" and ft: "f_text f = py ''Pursuit''" and fh: "f_html f = news_page"
    by (cases "scan_page_for_chase news_lib (serve news_page) ?u") auto
  from n fu fh have "choose_best_title_and_link news_lib (f_html f) (f_url f) = Inr (None, None)"
    by simp
  with choose_best_title_needs_positive_score[where L=news_lib and result=f and link=None]
  have "title_for news_lib f = Inr (f_text f, None)" by blast
  with f ft have e: "\<exists>f. scan_page_for_chase news_lib (serve news_page) ?u = Some f
          \<and> title_for news_lib f = Inr (py ''Pursuit'', None)" by auto
  from choose_best_title_needs_positive_score[where L=pursuit_lib and html=pursuit_page
      and base_url="?u" and title="py ''Pursuit''" and link=None]
    pursuit_choose
  have p: "0 < fst (score_text_block pursuit_lib (py ''Pursuit''))
          + (if re_search pursuit_lib LIVE_RE (py ''Pursuit'') then 6 else 0)" by blast
  from news_headings news_anchors news_heading_score n e pursuit_choose p
  show ?thesis by simp
qed

section \<open>Properties of the oracle\<close>

lemma save_cache_effect:
  "environ (save_cache E key resp w) = environ w
   \<and> dotenv_file (save_cache E key resp w) = dotenv_file w
   \<and> last_chase_file (save_cache E key resp w) = last_chase_file w
   \<and> fetched (save_cache E key resp w) = fetched w
   \<and> alerts_posted (save_cache E key resp w) = alerts_posted w
   \<and> logs_posted (save_cache E key resp w) = logs_posted w
   \<and> log_txt (save_cache E key resp w) = log_txt w
   \<and> (cache_files (save_cache E key resp w) = cache_files w
        \<or> cache_files (save_cache E key resp w) = (cache_files w)(key \<mapsto> CacheEntry (Some resp))
        \<or> cache_files (save_cache E key resp w) = (cache_files w)(key \<mapsto> CacheCorrupt))"
  by (simp add: save_cache_def split: write_outcome.splits)

text \<open>
  The retry loop touches nothing but the step count and the cache, and it writes the
  cache only with the response it returns, which is then not empty.
\<close>

lemma retry_loop_effect:
  "retry_loop E prompt model n key atts w = (r, w') \<Longrightarrow>
     environ w' = environ w \<and> dotenv_file w' = dotenv_file w
     \<and> last_chase_file w' = last_chase_file w \<and> fetched w' = fetched w
     \<and> alerts_posted w' = alerts_posted w \<and> logs_posted w' = logs_posted w
     \<and> log_txt w' = log_txt w
     \<and> (cache_files w' = cache_files w
          \<or> (\<exists>resp. r = Inr resp \<and> resp \<noteq> []
                \<and> (cache_files w' = (cache_files w)(key \<mapsto> CacheEntry (Some resp))
                     \<or> cache_files w' = (cache_files w)(key \<mapsto> CacheCorrupt))))
     \<and> (r = Inr [] \<longrightarrow> cache_files w' = cache_files w)"
proof (induction atts arbitrary: w)
  case Nil
  then show ?case by auto
next
  case (Cons attempt rest)
  let ?w1 = "w\<lparr>steps := Suc (steps w)\<rparr>"
  show ?case
  proof (cases "curl_generate_content (api_reply E (steps w) model prompt)")
    case (Inl e)
    show ?thesis
    proof (cases "Suc attempt = n")
      case True
      with Cons.prems Inl show ?thesis by (auto simp: Let_def)
    next
      case False
      with Cons.prems Inl have "retry_loop E prompt model n key rest ?w1 = (r, w')"
        by (simp add: Let_def)
      from Cons.IH[OF this] show ?thesis by simp
    qed
  next
    case (Inr response_text)
    show ?thesis
    proof (cases "response_text = []")
      case True
      with Cons.prems Inr have "retry_loop E prompt model n key rest ?w1 = (r, w')"
        by (simp add: Let_def)
      from Cons.IH[OF this] show ?thesis by simp
    next
      case False
      with Cons.prems Inr have r: "r = Inr response_text"
        and w': "w' = save_cache E key response_text ?w1"
        by (auto simp: Let_def)
      from save_cache_effect[of E key response_text ?w1] False show ?thesis
        unfolding r w' by auto
    qed
  qed
qed

lemma send_log_webhook_effect:
  "environ (send_log_webhook m w) = environ w
   \<and> dotenv_file (send_log_webhook m w) = dotenv_file w
   \<and> cache_files (send_log_webhook m w) = cache_files w
   \<and> last_chase_file (send_log_webhook m w) = last_chase_file w
   \<and> steps (send_log_webhook m w) = steps w
   \<and> fetched (send_log_webhook m w) = fetched w
   \<and> alerts_posted (send_log_webhook m w) = alerts_posted w
   \<and> log_txt (send_log_webhook m w) = log_txt w"
  by (simp add: send_log_webhook_def)

lemma ask_gemini_effect:
  assumes "ask_gemini L E prompt api_key model n w = (r, w')"
  shows "environ w' = environ w \<and> dotenv_file w' = dotenv_file w
     \<and> last_chase_file w' = last_chase_file w \<and> fetched w' = fetched w
     \<and> alerts_posted w' = alerts_posted w \<and> log_txt w' = log_txt w
     \<and> (cache_files w' = cache_files w
          \<or> (\<exists>resp. r = Inr resp \<and> resp \<noteq> []
                \<and> (cache_files w' = (cache_files w)(cache_digest L prompt model \<mapsto> CacheEntry (Some resp))
                     \<or> cache_files w' = (cache_files w)(cache_digest L prompt model \<mapsto> CacheCorrupt))))"
proof (cases "truthy (py_or api_key (getenv w ''GEMINI_API_KEY''))")
  case False
  with assms show ?thesis by (simp add: ask_gemini_def Let_def)
next
  case True
  show ?thesis
  proof (cases "load_cache w (cache_digest L prompt model)")
    case (Some cached)
    with assms True show ?thesis by (simp add: ask_gemini_def Let_def)
  next
    case None
    let ?m = "py ''Gemini cache miss model='' @ model @ py '' key=''
                @ take 8 (cache_digest L prompt model)
                @ py '' prompt='' @ [39] @ take 200 prompt @ [39]"
    from assms True None
    have "retry_loop E prompt model n (cache_digest L prompt model) [0 ..< n]
            (send_log_webhook ?m w) = (r, w')"
      by (simp add: ask_gemini_def Let_def)
    from retry_loop_effect[OF this] send_log_webhook_effect[of ?m w]
    show ?thesis by simp
  qed
qed

lemma ask_gemini_no_key:
  "\<not> truthy (py_or api_key (getenv w ''GEMINI_API_KEY'')) \<Longrightarrow>
     ask_gemini L E prompt api_key model n w = (Inl ValueError, w)"
  by (simp add: ask_gemini_def Let_def)

lemma retry_loop_all_empty:
  "(\<forall>i < length atts. curl_generate_content (api_reply E (steps w + i) model prompt) = Inr []) \<Longrightarrow>
     retry_loop E prompt model n key atts w = (Inr [], w\<lparr>steps := steps w + length atts\<rparr>)"
proof (induction atts arbitrary: w)
  case Nil
  then show ?case by simp
next
  case (Cons attempt rest)
  let ?w1 = "w\<lparr>steps := Suc (steps w)\<rparr>"
  from Cons.prems have h: "curl_generate_content (api_reply E (steps w) model prompt) = Inr []"
    by force
  have "\<forall>i < length rest. curl_generate_content (api_reply E (steps ?w1 + i) model prompt) = Inr []"
  proof (intro allI impI)
    fix i assume "i < length rest"
    then have "Suc i < length (attempt # rest)" by simp
    from Cons.prems[rule_format, OF this] show
      "curl_generate_content (api_reply E (steps ?w1 + i) model prompt) = Inr []" by simp
  qed
  from Cons.IH[OF this] h show ?case by (simp add: Let_def)
qed

lemma retry_loop_all_errors:
  "k < n \<Longrightarrow>
   (\<forall>i < n - k. \<exists>e. curl_generate_content (api_reply E (steps w + i) model prompt) = Inl e) \<Longrightarrow>
     retry_loop E prompt model n key [k ..< n] w
       = (Inl GeminiRequestFailed, w\<lparr>steps := steps w + (n - k)\<rparr>)"
proof (induction "n - k" arbitrary: k w)
  case 0
  then show ?case by simp
next
  case (Suc d)
  let ?w1 = "w\<lparr>steps := Suc (steps w)\<rparr>"
  from Suc.prems(1) have u: "[k ..< n] = k # [Suc k ..< n]" by (simp add: upt_conv_Cons)
  from Suc.prems obtain e where
    e: "curl_generate_content (api_reply E (steps w) model prompt) = Inl e" by force
  show ?case
  proof (cases "Suc k = n")
    case True
    with e u show ?thesis by (simp add: Let_def)
  next
    case False
    with Suc.prems(1) have lt: "Suc k < n" by simp
    from Suc.hyps(2) have d: "d = n - Suc k" by simp
    have "\<forall>i < n - Suc k. \<exists>e. curl_generate_content (api_reply E (steps ?w1 + i) model prompt) = Inl e"
    proof (intro allI impI)
      fix i assume "i < n - Suc k"
      then have "Suc i < n - k" by simp
      from Suc.prems(2)[rule_format, OF this] show
        "\<exists>e. curl_generate_content (api_reply E (steps ?w1 + i) model prompt) = Inl e" by simp
    qed
    from Suc.hyps(1)[OF d lt this] e u False lt show ?thesis
      by (simp add: Let_def)
  qed
qed

text \<open>
  C10. A call of the oracle leaves the cache as it was, or writes the entry of its own key
  with the response it returns, which is then not empty (a failed write leaves a file that
  does not load). Hence an entry that holds a response and was not there before holds a
  non-empty one. When the key is set, the cache has no answer and every attempt returns
  the empty text, the call returns the empty string and the cache is as before.
\<close>

theorem ask_gemini_caches_only_non_empty:
  assumes "ask_gemini L E prompt api_key model max_retries w = (r, w')"
  shows "(cache_files w' = cache_files w
          \<or> (\<exists>resp. r = Inr resp \<and> resp \<noteq> []
                \<and> (cache_files w' = (cache_files w)(cache_digest L prompt model \<mapsto> CacheEntry (Some resp))
                     \<or> cache_files w' = (cache_files w)(cache_digest L prompt model \<mapsto> CacheCorrupt))))
     \<and> (\<forall>key resp. cache_files w' key = Some (CacheEntry (Some resp))
            \<and> cache_files w key \<noteq> Some (CacheEntry (Some resp)) \<longrightarrow> resp \<noteq> [] \<and> r = Inr resp)
     \<and> (truthy (py_or api_key (getenv w ''GEMINI_API_KEY''))
          \<and> load_cache w (cache_digest L prompt model) = None
          \<and> (\<forall>i < max_retries.
                 curl_generate_content (api_reply E (steps w + i) model prompt) = Inr [])
          \<longrightarrow> r = Inr [] \<and> cache_files w' = cache_files w)"
proof -
  note F = ask_gemini_effect[OF assms]
  from F have a: "cache_files w' = cache_files w
          \<or> (\<exists>resp. r = Inr resp \<and> resp \<noteq> []
                \<and> (cache_files w' = (cache_files w)(cache_digest L prompt model \<mapsto> CacheEntry (Some resp))
                     \<or> cache_files w' = (cache_files w)(cache_digest L prompt model \<mapsto> CacheCorrupt)))"
    by blast
  have b: "resp \<noteq> [] \<and> r = Inr resp"
    if "cache_files w' key = Some (CacheEntry (Some resp))
        \<and> cache_files w key \<noteq> Some (CacheEntry (Some resp))" for key resp
    using a that by (auto split: if_splits)
  have c: "r = Inr [] \<and> cache_files w' = cache_files w"
    if h: "truthy (py_or api_key (getenv w ''GEMINI_API_KEY''))
          \<and> load_cache w (cache_digest L prompt model) = None
          \<and> (\<forall>i < max_retries.
                 curl_generate_content (api_reply E (steps w + i) model prompt) = Inr [])"
  proof -
    let ?m = "py ''Gemini cache miss model='' @ model @ py '' key=''
                @ take 8 (cache_digest L prompt model)
                @ py '' prompt='' @ [39] @ take 200 prompt @ [39]"
    let ?w0 = "send_log_webhook ?m w"
    have s: "steps ?w0 = steps w" and cf: "cache_files ?w0 = cache_files w"
      using send_log_webhook_effect[of ?m w] by simp_all
    from h have "\<forall>i < length [0 ..< max_retries].
        curl_generate_content (api_reply E (steps ?w0 + i) model prompt) = Inr []"
      unfolding s by simp
    from retry_loop_all_empty[OF this, of max_retries "cache_digest L prompt model"]
    have "ask_gemini L E prompt api_key model max_retries w
            = (Inr [], ?w0\<lparr>steps := steps ?w0 + length [0 ..< max_retries]\<rparr>)"
      using h by (simp add: ask_gemini_def Let_def)
    with assms cf show ?thesis by auto
  qed
  from a b c show ?thesis by blast
qed

lemmas oracle_defs = ask_gemini_default_def ask_gemini_def load_cache_def save_cache_def
  send_log_webhook_def curl_generate_content_def getenv_def py_or_def truthy_def
  keyed_world_def bare_world_def answering_def serve_def

lemma keyed_world_key: "truthy (py_or None (getenv keyed_world ''GEMINI_API_KEY''))"
  by (simp add: oracle_defs py_def)

lemma keyed_world_miss: "load_cache keyed_world key = None"
  by (simp add: oracle_defs)

lemma answering_empty: "curl_generate_content (api_reply (answering page []) n model prompt) = Inr []"
  by (simp add: oracle_defs py_strip_def)

lemma answering_yes:
  "curl_generate_content (api_reply (answering page (py ''YES'')) n model prompt) = Inr (py ''YES'')"
  by (simp add: oracle_defs py_strip_def py_isspace_def py_def)

lemma keyed_world_no_log: "send_log_webhook m keyed_world = keyed_world"
  by (simp add: oracle_defs py_def)

lemma ask_yes:
  "ask_gemini L (answering page (py ''YES'')) prompt None model 3 keyed_world
     = (Inr (py ''YES''),
        keyed_world\<lparr> cache_files := [cache_digest L prompt model \<mapsto> CacheEntry (Some (py ''YES''))],
                      steps := 2 \<rparr>)"
proof -
  have d: "disk_write (answering page (py ''YES'')) n = Written" for n
    by (simp add: answering_def serve_def)
  have u: "[0 ..< 3] = [0, 1, 2]" by (simp add: upt_rec)
  have "ask_gemini L (answering page (py ''YES'')) prompt None model 3 keyed_world
     = retry_loop (answering page (py ''YES'')) prompt model 3 (cache_digest L prompt model)
         [0, 1, 2] keyed_world"
    using keyed_world_key
    by (simp add: ask_gemini_def Let_def keyed_world_miss keyed_world_no_log u)
  also have "\<dots> = (Inr (py ''YES''),
        keyed_world\<lparr> cache_files := [cache_digest L prompt model \<mapsto> CacheEntry (Some (py ''YES''))],
                      steps := 2 \<rparr>)"
    by (simp add: answering_yes Let_def save_cache_def d)
       (simp add: py_def keyed_world_def bare_world_def)
  finally show ?thesis .
qed

theorem ask_gemini_caches_only_non_empty_witness:
  "fst (ask_gemini plain_lib (answering pursuit_page []) (live_prompt (py ''Pursuit'')) None
          (py ''gemini-2.5-flash'') 3 keyed_world) = Inr []
   \<and> cache_files (snd (ask_gemini plain_lib (answering pursuit_page []) (live_prompt (py ''Pursuit''))
          None (py ''gemini-2.5-flash'') 3 keyed_world)) = cache_files keyed_world
   \<and> fst (ask_gemini plain_lib (answering pursuit_page (py ''YES'')) (live_prompt (py ''Pursuit''))
          None (py ''gemini-2.5-flash'') 3 keyed_world) = Inr (py ''YES'')
   \<and> cache_files (snd (ask_gemini plain_lib (answering pursuit_page (py ''YES''))
          (live_prompt (py ''Pursuit'')) None (py ''gemini-2.5-flash'') 3 keyed_world))
        (cache_digest plain_lib (live_prompt (py ''Pursuit'')) (py ''gemini-2.5-flash''))
       = Some (CacheEntry (Some (py ''YES'')))
   \<and> py ''YES'' \<noteq> []"
proof -
  let ?p = "live_prompt (py ''Pursuit'')" and ?m = "py ''gemini-2.5-flash''"
  let ?k = "cache_digest plain_lib ?p ?m"
  obtain r w' where e: "ask_gemini plain_lib (answering pursuit_page []) ?p None ?m 3 keyed_world
      = (r, w')"
    by (cases "ask_gemini plain_lib (answering pursuit_page []) ?p None ?m 3 keyed_world")
  have h: "truthy (py_or None (getenv keyed_world ''GEMINI_API_KEY''))
          \<and> load_cache keyed_world ?k = None
          \<and> (\<forall>i < 3. curl_generate_content
                 (api_reply (answering pursuit_page []) (steps keyed_world + i) ?m ?p) = Inr [])"
    by (simp add: keyed_world_key keyed_world_miss answering_empty)
  from ask_gemini_caches_only_non_empty[OF e] h
  have a: "r = Inr [] \<and> cache_files w' = cache_files keyed_world" by blast
  let ?W = "keyed_world\<lparr> cache_files := [?k \<mapsto> CacheEntry (Some (py ''YES''))], steps := 2 \<rparr>"
  note y = ask_yes[of plain_lib pursuit_page ?p ?m]
  have cW: "cache_files ?W ?k = Some (CacheEntry (Some (py ''YES'')))" by simp
  have o: "cache_files keyed_world ?k \<noteq> Some (CacheEntry (Some (py ''YES'')))"
    by (simp add: keyed_world_def bare_world_def)
  from ask_gemini_caches_only_non_empty[OF y]
  have Q: "\<forall>key resp. cache_files ?W key = Some (CacheEntry (Some resp))
            \<and> cache_files keyed_world key \<noteq> Some (CacheEntry (Some resp))
            \<longrightarrow> resp \<noteq> [] \<and> Inr (py ''YES'') = (Inr resp :: exn + pystr)"
    by (rule conjunct1[OF conjunct2])
  from Q[rule_format, of ?k "py ''YES''"] cW o have n: "py ''YES'' \<noteq> []" by blast
  have c: "cache_files (snd (ask_gemini plain_lib (answering pursuit_page (py ''YES'')) ?p None ?m 3
              keyed_world)) ?k = Some (CacheEntry (Some (py ''YES'')))"
    unfolding y by simp
  have f: "fst (ask_gemini plain_lib (answering pursuit_page (py ''YES'')) ?p None ?m 3
              keyed_world) = Inr (py ''YES'')"
    unfolding y by simp
  from a e have a1: "fst (ask_gemini plain_lib (answering pursuit_page []) ?p None ?m 3 keyed_world)
      = Inr []"
    and a2: "cache_files (snd (ask_gemini plain_lib (answering pursuit_page []) ?p None ?m 3
      keyed_world)) = cache_files keyed_world" by simp_all
  show ?thesis
    by (intro conjI) (rule a1 a2 f c n)+
qed

section \<open>Properties of the gateways\<close>

subsection \<open>Tokens of a response\<close>

lemma py_split_acc_spaces:
  "\<forall>c \<in> set ws. py_isspace c \<Longrightarrow> py_split_acc cur ws = (if cur = [] then [] else [cur])"
  by (induction ws arbitrary: cur) auto

lemma py_split_acc_trailing:
  "\<forall>c \<in> set ws. py_isspace c \<Longrightarrow> py_split_acc cur (s @ ws) = py_split_acc cur s"
  by (induction s arbitrary: cur) (auto simp: py_split_acc_spaces)

lemma py_split_acc_leading: "py_split_acc [] (dropWhile py_isspace s) = py_split_acc [] s"
  by (induction s) auto

lemma py_split_strip: "py_split (py_strip s) = py_split s"
proof -
  let ?t = "dropWhile py_isspace s"
  have "?t = rev (takeWhile py_isspace (rev ?t) @ dropWhile py_isspace (rev ?t))"
    by (simp only: takeWhile_dropWhile_id rev_rev_ident)
  then have t: "?t = py_strip s @ rev (takeWhile py_isspace (rev ?t))"
    by (simp only: rev_append py_strip_def)
  have "\<forall>c \<in> set (rev (takeWhile py_isspace (rev ?t))). py_isspace c"
    by (auto dest: set_takeWhileD)
  from py_split_acc_trailing[OF this, of "[]" "py_strip s"] t
  have "py_split_acc [] (py_strip s) = py_split_acc [] ?t" by simp
  then show ?thesis by (simp add: py_split_def py_split_acc_leading)
qed

lemma py_split_acc_Nil_iff:
  "py_split_acc cur s = [] \<longleftrightarrow> cur = [] \<and> (\<forall>c \<in> set s. py_isspace c)"
  by (induction s arbitrary: cur) auto

lemma py_split_Nil_iff: "py_split s = [] \<longleftrightarrow> (\<forall>c \<in> set s. py_isspace c)"
  by (simp add: py_split_def py_split_acc_Nil_iff)

lemma py_strip_Nil_iff: "py_strip s = [] \<longleftrightarrow> (\<forall>c \<in> set s. py_isspace c)"
proof
  assume "py_strip s = []"
  then have "\<forall>c \<in> set (dropWhile py_isspace s). py_isspace c"
    by (simp add: py_strip_def dropWhile_eq_Nil_conv)
  then have "dropWhile py_isspace s = []"
    using hd_dropWhile[of py_isspace s] by (cases "dropWhile py_isspace s") auto
  then show "\<forall>c \<in> set s. py_isspace c" by (simp add: dropWhile_eq_Nil_conv)
next
  assume "\<forall>c \<in> set s. py_isspace c"
  then show "py_strip s = []"
    by (auto simp: py_strip_def dropWhile_eq_Nil_conv dest: set_dropWhileD)
qed

text \<open>
  The parsing of an answer: the empty response is "no"; a response with a token is "yes"
  exactly when its first token, upper-cased, is \<open>YES\<close>; a response of whitespace only
  has no first token, and indexing raises.
\<close>

lemma answer_is_yes_cases:
  "answer_is_yes L resp =
     (if resp = [] then Inr False
      else case py_split resp of
             [] \<Rightarrow> Inl IndexError
           | tok # toks \<Rightarrow> Inr (str_upper L tok = py ''YES''))"
  by (simp add: answer_is_yes_def py_split_strip)

text \<open>
  A text that the API call returns is stripped: it is empty or has a token. So is every
  response of the retry loop, and every response of the oracle that does not come from a
  cache file holding whitespace only.
\<close>

lemma curl_generate_content_token:
  "curl_generate_content reply = Inr resp \<Longrightarrow> resp = [] \<or> py_split resp \<noteq> []"
proof -
  assume "curl_generate_content reply = Inr resp"
  then obtain x where "resp = py_strip x"
    by (auto simp: curl_generate_content_def Let_def split: api_reply.splits)
  then show ?thesis
    using py_strip_Nil_iff[of x] py_split_Nil_iff[of x] by (auto simp: py_split_strip)
qed

lemma retry_loop_token:
  "retry_loop E prompt model n key atts w = (Inr resp, w') \<Longrightarrow> resp = [] \<or> py_split resp \<noteq> []"
proof (induction atts arbitrary: w)
  case Nil
  then show ?case by simp
next
  case (Cons attempt rest)
  show ?case
  proof (cases "curl_generate_content (api_reply E (steps w) model prompt)")
    case (Inl e)
    with Cons.prems have
      "retry_loop E prompt model n key rest (w\<lparr>steps := Suc (steps w)\<rparr>) = (Inr resp, w')"
      by (auto simp: Let_def split: if_splits)
    from Cons.IH[OF this] show ?thesis .
  next
    case (Inr response_text)
    show ?thesis
    proof (cases "response_text = []")
      case True
      with Cons.prems Inr have
        "retry_loop E prompt model n key rest (w\<lparr>steps := Suc (steps w)\<rparr>) = (Inr resp, w')"
        by (simp add: Let_def)
      from Cons.IH[OF this] show ?thesis .
    next
      case False
      with Cons.prems Inr have "resp = response_text" by (simp add: Let_def)
      with curl_generate_content_token[OF Inr] show ?thesis by simp
    qed
  qed
qed

lemma ask_gemini_token:
  assumes "ask_gemini L E prompt api_key model n w = (Inr resp, w')"
    and "load_cache w (cache_digest L prompt model) = None"
  shows "resp = [] \<or> py_split resp \<noteq> []"
  using assms
  by (auto simp: ask_gemini_def Let_def split: if_splits dest: retry_loop_token)

lemma ask_gemini_exhausted_empty:
  assumes "truthy (py_or api_key (getenv w ''GEMINI_API_KEY''))"
    and "load_cache w (cache_digest L prompt model) = None"
    and "\<forall>i < n. curl_generate_content (api_reply E (steps w + i) model prompt) = Inr []"
  shows "fst (ask_gemini L E prompt api_key model n w) = Inr []"
proof -
  obtain r w' where e: "ask_gemini L E prompt api_key model n w = (r, w')"
    by (cases "ask_gemini L E prompt api_key model n w")
  from retry_loop_all_empty[of "[0 ..< n]" E _ model prompt n "cache_digest L prompt model"]
    assms send_log_webhook_effect
  show ?thesis
    by (simp add: ask_gemini_def Let_def)
qed

lemma ask_gemini_exhausted_errors:
  assumes "truthy (py_or api_key (getenv w ''GEMINI_API_KEY''))"
    and "load_cache w (cache_digest L prompt model) = None"
    and "0 < n"
    and "\<forall>i < n. \<exists>e. curl_generate_content (api_reply E (steps w + i) model prompt) = Inl e"
  shows "fst (ask_gemini L E prompt api_key model n w) = Inl GeminiRequestFailed"
proof -
  let ?m = "py ''Gemini cache miss model='' @ model @ py '' key=''
                @ take 8 (cache_digest L prompt model)
                @ py '' prompt='' @ [39] @ take 200 prompt @ [39]"
  let ?w0 = "send_log_webhook ?m w"
  have s: "steps ?w0 = steps w" using send_log_webhook_effect[of ?m w] by simp
  from assms(4) have "\<forall>i < n - 0.
      \<exists>e. curl_generate_content (api_reply E (steps ?w0 + i) model prompt) = Inl e"
    unfolding s by simp
  from retry_loop_all_errors[OF assms(3) this, of "cache_digest L prompt model"] assms(1,2)
  show ?thesis by (simp add: ask_gemini_def Let_def)
qed

subsection \<open>The live classifier gateway\<close>

text \<open>
  The cases in which the gateway returns a value. It answers true exactly when the title is
  not empty, the oracle returns a response, and the first token of the response,
  upper-cased, is \<open>YES\<close>. An error of the oracle, an empty response and any other first
  token give false, and so does a call whose three attempts all return the empty text or
  all fail.
\<close>

lemma live_gateway_cases:
  assumes "ask_is_live_ongoing L E title w = (r, w')"
  shows "(r = Inr True \<longleftrightarrow>
            title \<noteq> [] \<and>
            (\<exists>resp tok toks. fst (ask_gemini_default L E (live_prompt title) w) = Inr resp
               \<and> py_split resp = tok # toks \<and> str_upper L tok = py ''YES''))
     \<and> ((\<exists>e. fst (ask_gemini_default L E (live_prompt title) w) = Inl e) \<longrightarrow> r = Inr False)
     \<and> (fst (ask_gemini_default L E (live_prompt title) w) = Inr [] \<longrightarrow> r = Inr False)
     \<and> (\<forall>resp tok toks. fst (ask_gemini_default L E (live_prompt title) w) = Inr resp
            \<and> py_split resp = tok # toks \<and> str_upper L tok \<noteq> py ''YES'' \<longrightarrow> r = Inr False)
     \<and> (truthy (getenv w ''GEMINI_API_KEY'')
          \<and> load_cache w (cache_digest L (live_prompt title) (py ''gemini-2.5-flash'')) = None
          \<and> ((\<forall>i < 3. curl_generate_content
                   (api_reply E (steps w + i) (py ''gemini-2.5-flash'') (live_prompt title)) = Inr [])
               \<or> (\<forall>i < 3. \<exists>e. curl_generate_content
                   (api_reply E (steps w + i) (py ''gemini-2.5-flash'') (live_prompt title)) = Inl e))
          \<longrightarrow> r = Inr False)"
proof -
  let ?g = "ask_gemini_default L E (live_prompt title) w"
  have split_Nil: "py_split [] = []" by (simp add: py_split_def)
  have r: "r = (if title = [] then Inr False
                else case fst ?g of Inl e \<Rightarrow> Inr False | Inr resp \<Rightarrow> answer_is_yes L resp)"
    using assms by (auto simp: ask_is_live_ongoing_def split: prod.splits sum.splits if_splits)
  have a: "r = Inr True \<longleftrightarrow>
            title \<noteq> [] \<and>
            (\<exists>resp tok toks. fst ?g = Inr resp
               \<and> py_split resp = tok # toks \<and> str_upper L tok = py ''YES'')"
    unfolding r answer_is_yes_cases
    by (auto simp: split_Nil split: sum.splits list.splits)
  have b: "(\<exists>e. fst ?g = Inl e) \<longrightarrow> r = Inr False"
    unfolding r by auto
  have c: "fst ?g = Inr [] \<longrightarrow> r = Inr False"
    unfolding r answer_is_yes_cases by auto
  have d: "\<forall>resp tok toks. fst ?g = Inr resp
            \<and> py_split resp = tok # toks \<and> str_upper L tok \<noteq> py ''YES'' \<longrightarrow> r = Inr False"
    unfolding r answer_is_yes_cases by (auto simp: split_Nil)
  have e: "r = Inr False"
    if h: "truthy (getenv w ''GEMINI_API_KEY'')
          \<and> load_cache w (cache_digest L (live_prompt title) (py ''gemini-2.5-flash'')) = None
          \<and> ((\<forall>i < 3. curl_generate_content
                   (api_reply E (steps w + i) (py ''gemini-2.5-flash'') (live_prompt title)) = Inr [])
               \<or> (\<forall>i < 3. \<exists>e. curl_generate_content
                   (api_reply E (steps w + i) (py ''gemini-2.5-flash'') (live_prompt title)) = Inl e))"
  proof -
    from h have k: "truthy (py_or None (getenv w ''GEMINI_API_KEY''))"
      by (simp add: py_or_def truthy_def)
    from h have "fst ?g = Inr [] \<or> fst ?g = Inl GeminiRequestFailed"
      unfolding ask_gemini_default_def
      using ask_gemini_exhausted_empty[OF k, of L "live_prompt title" "py ''gemini-2.5-flash''" 3 E]
        ask_gemini_exhausted_errors[OF k, of L "live_prompt title" "py ''gemini-2.5-flash''" 3 E]
      by auto
    with b c show ?thesis by auto
  qed
  from a b c d e show ?thesis by blast
qed

text \<open>
  The remaining case: a response that is not empty and holds whitespace only has no first
  token, and the gateway raises \<open>IndexError\<close>. By \<open>ask_gemini_token\<close> such a response can
  only come from a cache file, which the oracle hands over as it is.
\<close>

lemma live_gateway_blank_response:
  assumes "title \<noteq> []"
    and "fst (ask_gemini_default L E (live_prompt title) w) = Inr resp"
    and "resp \<noteq> []" and "\<forall>c \<in> set resp. py_isspace c"
  shows "fst (ask_is_live_ongoing L E title w) = Inl IndexError"
  using assms py_split_Nil_iff[of resp]
  by (auto simp: ask_is_live_ongoing_def answer_is_yes_cases split: prod.splits sum.splits)

lemma live_gateway_total_on_fresh_answers:
  assumes "load_cache w (cache_digest L (live_prompt title) (py ''gemini-2.5-flash'')) = None"
  shows "\<exists>b. fst (ask_is_live_ongoing L E title w) = Inr b"
proof (cases "ask_gemini_default L E (live_prompt title) w")
  case (Pair g w1)
  show ?thesis
  proof (cases g)
    case (Inl e)
    with Pair show ?thesis by (auto simp: ask_is_live_ongoing_def)
  next
    case (Inr resp)
    from Pair Inr ask_gemini_token[OF _ assms, of E None 3 resp w1]
    have "resp = [] \<or> py_split resp \<noteq> []" by (simp add: ask_gemini_default_def)
    with Pair Inr show ?thesis
      by (auto simp: ask_is_live_ongoing_def answer_is_yes_cases split: list.splits)
  qed
qed

lemma answering_text:
  "a \<noteq> [] \<Longrightarrow> py_strip a = a \<Longrightarrow>
     curl_generate_content (api_reply (answering page a) n model prompt) = Inr a"
  by (simp add: answering_def serve_def curl_generate_content_def truthy_def)

lemma ask_answer:
  assumes "a \<noteq> []" and "py_strip a = a"
  shows "fst (ask_gemini L (answering page a) prompt None model 3 keyed_world) = Inr a"
proof -
  have u: "[0 ..< 3] = [0, 1, 2]" by (simp add: upt_rec)
  have "ask_gemini L (answering page a) prompt None model 3 keyed_world
     = retry_loop (answering page a) prompt model 3 (cache_digest L prompt model)
         [0, 1, 2] keyed_world"
    using keyed_world_key
    by (simp add: ask_gemini_def Let_def keyed_world_miss keyed_world_no_log u)
  also have "fst \<dots> = Inr a"
    using assms by (simp add: answering_text[OF assms] Let_def)
  finally show ?thesis .
qed

lemma word_facts:
  "py ''YES'' \<noteq> []" "py_strip (py ''YES'') = py ''YES''" "py_split (py ''YES'') = [py ''YES'']"
  "py ''NO'' \<noteq> []" "py_strip (py ''NO'') = py ''NO''" "py_split (py ''NO'') = [py ''NO'']"
  "py ''NO'' \<noteq> py ''YES''" "py ''Pursuit'' \<noteq> []"
  by (simp_all add: py_def py_strip_def py_split_def py_isspace_def)

lemma live_gateway_examples:
  "fst (ask_is_live_ongoing plain_lib (answering pursuit_page (py ''YES'')) (py ''Pursuit'') keyed_world)
     = Inr True
   \<and> fst (ask_is_live_ongoing plain_lib (answering pursuit_page (py ''NO'')) (py ''Pursuit'') keyed_world)
     = Inr False
   \<and> fst (ask_is_live_ongoing plain_lib (answering pursuit_page []) (py ''Pursuit'') keyed_world)
     = Inr False
   \<and> fst (ask_is_live_ongoing plain_lib (serve pursuit_page) (py ''Pursuit'') keyed_world)
     = Inr False
   \<and> fst (ask_is_live_ongoing plain_lib (serve pursuit_page) (py ''Pursuit'') bare_world)
     = Inr False"
proof -
  let ?t = "py ''Pursuit''" and ?m = "py ''gemini-2.5-flash''"
  have up: "str_upper plain_lib s = s" for s by (simp add: plain_lib_def table_lib_def)
  have key: "truthy (getenv keyed_world ''GEMINI_API_KEY'')"
    using keyed_world_key by (simp add: py_or_def truthy_def)
  \<comment> \<open>the answer YES\<close>
  obtain r1 w1 where e1:
    "ask_is_live_ongoing plain_lib (answering pursuit_page (py ''YES'')) ?t keyed_world = (r1, w1)"
    by (cases "ask_is_live_ongoing plain_lib (answering pursuit_page (py ''YES'')) ?t keyed_world")
  have g1: "fst (ask_gemini_default plain_lib (answering pursuit_page (py ''YES'')) (live_prompt ?t)
                   keyed_world) = Inr (py ''YES'')"
    unfolding ask_gemini_default_def by (rule ask_answer[OF word_facts(1,2)])
  from live_gateway_cases[OF e1] g1 word_facts up have "r1 = Inr True" by blast
  with e1 have c1: "fst (ask_is_live_ongoing plain_lib (answering pursuit_page (py ''YES'')) ?t
                      keyed_world) = Inr True" by simp
  \<comment> \<open>the answer NO\<close>
  obtain r2 w2 where e2:
    "ask_is_live_ongoing plain_lib (answering pursuit_page (py ''NO'')) ?t keyed_world = (r2, w2)"
    by (cases "ask_is_live_ongoing plain_lib (answering pursuit_page (py ''NO'')) ?t keyed_world")
  have g2: "fst (ask_gemini_default plain_lib (answering pursuit_page (py ''NO'')) (live_prompt ?t)
                   keyed_world) = Inr (py ''NO'')"
    unfolding ask_gemini_default_def by (rule ask_answer[OF word_facts(4,5)])
  have "str_upper plain_lib (py ''NO'') \<noteq> py ''YES''" using word_facts(7) by (simp add: up)
  with live_gateway_cases[OF e2] g2 word_facts(6) have "r2 = Inr False" by blast
  with e2 have c2: "fst (ask_is_live_ongoing plain_lib (answering pursuit_page (py ''NO'')) ?t
                      keyed_world) = Inr False" by simp
  \<comment> \<open>three empty answers\<close>
  obtain r3 w3 where e3:
    "ask_is_live_ongoing plain_lib (answering pursuit_page []) ?t keyed_world = (r3, w3)"
    by (cases "ask_is_live_ongoing plain_lib (answering pursuit_page []) ?t keyed_world")
  have "\<forall>i < 3. curl_generate_content
          (api_reply (answering pursuit_page []) (steps keyed_world + i) ?m (live_prompt ?t)) = Inr []"
    by (simp add: answering_empty)
  with live_gateway_cases[OF e3] key keyed_world_miss have "r3 = Inr False" by blast
  with e3 have c3: "fst (ask_is_live_ongoing plain_lib (answering pursuit_page []) ?t keyed_world)
      = Inr False" by simp
  \<comment> \<open>three failed calls\<close>
  obtain r4 w4 where e4:
    "ask_is_live_ongoing plain_lib (serve pursuit_page) ?t keyed_world = (r4, w4)"
    by (cases "ask_is_live_ongoing plain_lib (serve pursuit_page) ?t keyed_world")
  have "\<forall>i < 3. \<exists>e. curl_generate_content
          (api_reply (serve pursuit_page) (steps keyed_world + i) ?m (live_prompt ?t)) = Inl e"
    by (simp add: serve_def curl_generate_content_def)
  with live_gateway_cases[OF e4] key keyed_world_miss have "r4 = Inr False" by blast
  with e4 have c4: "fst (ask_is_live_ongoing plain_lib (serve pursuit_page) ?t keyed_world)
      = Inr False" by simp
  \<comment> \<open>no API key\<close>
  obtain r5 w5 where e5:
    "ask_is_live_ongoing plain_lib (serve pursuit_page) ?t bare_world = (r5, w5)"
    by (cases "ask_is_live_ongoing plain_lib (serve pursuit_page) ?t bare_world")
  have "\<not> truthy (py_or None (getenv bare_world ''GEMINI_API_KEY''))"
    by (simp add: py_or_def truthy_def getenv_def bare_world_def)
  then have "fst (ask_gemini_default plain_lib (serve pursuit_page) (live_prompt ?t) bare_world)
      = Inl ValueError"
    by (simp add: ask_gemini_default_def ask_gemini_no_key)
  with live_gateway_cases[OF e5] have "r5 = Inr False" by blast
  with e5 have c5: "fst (ask_is_live_ongoing plain_lib (serve pursuit_page) ?t bare_world)
      = Inr False" by simp
  show ?thesis by (intro conjI) (rule c1 c2 c3 c4 c5)+
qed

subsection \<open>The deduplication gateway\<close>

text \<open>
  C7. When no previous event is stored (the value is absent, an empty object or another
  falsy value), the deduplication gateway answers "not a duplicate" for every current
  event and leaves the state as it is: the oracle is not called and the cache is not read.
  In the main loop a state file that is missing, unreadable or empty leads straight to the
  alert once the live link is found.
\<close>

theorem same_chase_without_previous:
  "(previous = None \<or> previous = Some (JObject []) \<or> previous = Some (JOther False) \<longrightarrow>
      ask_is_same_chase L E previous current w = (Inr False, w))
   \<and> ((last_chase_file w = ChaseAbsent \<or> last_chase_file w = ChaseUnreadable
         \<or> last_chase_file w = ChaseStored [] \<or> last_chase_file w = ChaseOther False)
        \<and> live_link_for L result candidate_href = Inr live_link \<longrightarrow>
      handle_live L E result title candidate_href w
        = (None, alert_and_save L E result title live_link (snd (utcnow_iso E w))))"
proof -
  have a: "ask_is_same_chase L E previous current w = (Inr False, w)"
    if "previous = None \<or> previous = Some (JObject []) \<or> previous = Some (JOther False)"
    using that by (auto simp: ask_is_same_chase_def)
  have b: "handle_live L E result title candidate_href w
        = (None, alert_and_save L E result title live_link (snd (utcnow_iso E w)))"
    if h: "(last_chase_file w = ChaseAbsent \<or> last_chase_file w = ChaseUnreadable
         \<or> last_chase_file w = ChaseStored [] \<or> last_chase_file w = ChaseOther False)
        \<and> live_link_for L result candidate_href = Inr live_link"
  proof -
    from h have "\<not> truthy_loaded (load_last_chase w)"
      by (auto simp: load_last_chase_def truthy_loaded_def)
    with h show ?thesis
      by (simp add: handle_live_def Let_def split: prod.splits)
  qed
  from a b show ?thesis by blast
qed

lemma plain_live_link: "live_link_for plain_lib pursuit_finding None = Inr nbc_url"
  by (simp add: live_link_for_def find_any_live_link_def extract_anchors_def plain_lib_def
      table_lib_def pursuit_finding_def py_or_def truthy_def)

theorem same_chase_without_previous_witness:
  "ask_is_same_chase plain_lib (answering pursuit_page (py ''YES'')) None
       [(''title'', py ''Pursuit'')] keyed_world = (Inr False, keyed_world)
   \<and> ask_is_same_chase plain_lib (answering pursuit_page (py ''YES'')) (Some (JObject []))
       [(''title'', py ''Pursuit'')] keyed_world = (Inr False, keyed_world)
   \<and> last_chase_file keyed_world = ChaseAbsent
   \<and> live_link_for plain_lib pursuit_finding None = Inr nbc_url
   \<and> handle_live plain_lib (answering pursuit_page (py ''YES'')) pursuit_finding (py ''Pursuit'') None
         keyed_world
       = (None, alert_and_save plain_lib (answering pursuit_page (py ''YES'')) pursuit_finding
                  (py ''Pursuit'') nbc_url
                  (snd (utcnow_iso (answering pursuit_page (py ''YES'')) keyed_world)))"
proof -
  have a: "last_chase_file keyed_world = ChaseAbsent"
    by (simp add: keyed_world_def bare_world_def)
  note T = same_chase_without_previous[where L=plain_lib and E="answering pursuit_page (py ''YES'')"
      and current="[(''title'', py ''Pursuit'')]" and w=keyed_world and result=pursuit_finding
      and title="py ''Pursuit''" and candidate_href=None and live_link=nbc_url]
  from T[where previous=None] have c1:
    "ask_is_same_chase plain_lib (answering pursuit_page (py ''YES'')) None
       [(''title'', py ''Pursuit'')] keyed_world = (Inr False, keyed_world)" by blast
  from T[where previous="Some (JObject [])"] have c2:
    "ask_is_same_chase plain_lib (answering pursuit_page (py ''YES'')) (Some (JObject []))
       [(''title'', py ''Pursuit'')] keyed_world = (Inr False, keyed_world)" by blast
  from T[where previous=None] a plain_live_link have c3:
    "handle_live plain_lib (answering pursuit_page (py ''YES'')) pursuit_finding (py ''Pursuit'') None
         keyed_world
       = (None, alert_and_save plain_lib (answering pursuit_page (py ''YES'')) pursuit_finding
                  (py ''Pursuit'') nbc_url
                  (snd (utcnow_iso (answering pursuit_page (py ''YES'')) keyed_world)))" by blast
  show ?thesis by (intro conjI) (rule c1 c2 a plain_live_link c3)+
qed

section \<open>Properties of the main loop\<close>

subsection \<open>What each step leaves unchanged\<close>






lemma log_pursuit_effect:
  "environ (log_pursuit E f w) = environ w \<and> last_chase_file (log_pursuit E f w) = last_chase_file w
   \<and> fetched (log_pursuit E f w) = fetched w \<and> alerts_posted (log_pursuit E f w) = alerts_posted w
   \<and> cache_files (log_pursuit E f w) = cache_files w"
  by (simp add: log_pursuit_def split: write_outcome.splits)





subsection \<open>A first alert, with and without the webhook\<close>

lemma nbc_lib_fields:
  "re_findall nbc_lib = re_findall pursuit_lib" "re_findall2 nbc_lib = re_findall2 pursuit_lib"
  "re_search nbc_lib = re_search pursuit_lib" "re_sub nbc_lib = re_sub pursuit_lib"
  "re_split nbc_lib = re_split pursuit_lib" "unescape nbc_lib = unescape pursuit_lib"
  "str_lower nbc_lib = str_lower pursuit_lib" "str_upper nbc_lib s = s"
  "urljoin nbc_lib = urljoin pursuit_lib"
  by (simp_all add: nbc_lib_def pursuit_lib_def table_lib_def)


lemma nbc_scan_serve:
  "scan_page_for_chase nbc_lib (serve pursuit_page) nbc_url = Some pursuit_finding"
  by (simp add: scan_defs nbc_lib_fields pursuit_finding_def example_defs nbc_url_def)

lemma nbc_title: "title_for nbc_lib pursuit_finding = Inr (py ''Pursuit'', None)"
  by (simp add: scan_defs title_defs nbc_lib_fields pursuit_finding_def example_defs)












section \<open>A cached response without a token\<close>

lemma blank_cache_world_facts:
  "truthy (py_or None (getenv blank_cache_world ''GEMINI_API_KEY''))"
  "cache_files blank_cache_world
     (cache_digest nbc_lib (live_prompt (py ''Pursuit'')) (py ''gemini-2.5-flash''))
     = Some (CacheEntry (Some [SP]))"
  "dotenv_file blank_cache_world = NoDotenv" "fetched blank_cache_world = []"
  "alerts_posted blank_cache_world = []" "last_chase_file blank_cache_world = ChaseAbsent"
  using keyed_world_key
  by (simp_all add: blank_cache_world_def keyed_world_def bare_world_def getenv_def)

lemma cached_blank_raises:
  assumes "truthy (py_or None (getenv w ''GEMINI_API_KEY''))" and "title \<noteq> []"
    and "cache_files w (cache_digest L (live_prompt title) (py ''gemini-2.5-flash''))
           = Some (CacheEntry (Some [SP]))"
  shows "ask_is_live_ongoing L E title w = (Inl IndexError, w)"
  using assms
  by (simp add: ask_is_live_ongoing_def ask_gemini_default_def ask_gemini_def load_cache_def
      answer_is_yes_def py_strip_def py_split_def py_isspace_def SP_def Let_def)

text \<open>
  C5. The live classifier gateway answers true exactly for a response whose first token,
  upper-cased, is YES, and false for an oracle error, for an empty response and for
  another first token (\<open>live_gateway_cases\<close>). It is not fail-closed on a response that
  is not empty and holds no token. With the API key set, and the cache file of the
  classifier prompt for the headline "Pursuit" holding a response of one space, the oracle
  returns that response from the cache, \<open>.split()[0]\<close> raises \<open>IndexError\<close> outside the
  \<open>try\<close> of the gateway, and the exception leaves the loop over the URLs at the first
  URL: the run ends with \<open>IndexError\<close> after one fetch.
\<close>

theorem live_gateway_raises_on_blank_response:
  "load_cache blank_cache_world
       (cache_digest nbc_lib (live_prompt (py ''Pursuit'')) (py ''gemini-2.5-flash'')) = Some [SP]
   \<and> fst (ask_gemini_default nbc_lib (serve pursuit_page) (live_prompt (py ''Pursuit''))
            blank_cache_world) = Inr [SP]
   \<and> ask_is_live_ongoing nbc_lib (serve pursuit_page) (py ''Pursuit'') blank_cache_world
       = (Inl IndexError, blank_cache_world)
   \<and> fst (main_step nbc_lib (serve pursuit_page) nbc_url blank_cache_world) = Some IndexError
   \<and> fst (program nbc_lib (serve pursuit_page) blank_cache_world) = Some IndexError
   \<and> fetched (snd (program nbc_lib (serve pursuit_page) blank_cache_world)) = [nbc_url]"
proof -
  let ?E = "serve pursuit_page" and ?w = blank_cache_world
  let ?w2 = "log_pursuit ?E pursuit_finding (?w\<lparr>fetched := fetched ?w @ [nbc_url]\<rparr>)"
  note B = blank_cache_world_facts
  have c1: "load_cache ?w
       (cache_digest nbc_lib (live_prompt (py ''Pursuit'')) (py ''gemini-2.5-flash'')) = Some [SP]"
    by (simp add: load_cache_def B(2))
  have c2: "fst (ask_gemini_default nbc_lib ?E (live_prompt (py ''Pursuit'')) ?w) = Inr [SP]"
    using B(1) by (simp add: ask_gemini_default_def ask_gemini_def Let_def c1)
  have c3: "ask_is_live_ongoing nbc_lib ?E (py ''Pursuit'') ?w = (Inl IndexError, ?w)"
    by (rule cached_blank_raises[OF B(1) word_facts(8) B(2)])
  have w2: "environ ?w2 = environ ?w" "cache_files ?w2 = cache_files ?w"
    "fetched ?w2 = [nbc_url]"
    using log_pursuit_effect[of ?E pursuit_finding "?w\<lparr>fetched := fetched ?w @ [nbc_url]\<rparr>"] B(4)
    by simp_all
  have l: "ask_is_live_ongoing nbc_lib ?E (py ''Pursuit'') ?w2 = (Inl IndexError, ?w2)"
    using B(1,2) w2 by (intro cached_blank_raises) (simp_all add: getenv_def word_facts)
  have m: "main_step nbc_lib ?E nbc_url ?w = (Some IndexError, ?w2)"
    by (simp add: main_step_def Let_def nbc_scan_serve nbc_title l)
  have n: "news = nbc_url # tl news" by (simp add: news_def nbc_url_def)
  have s: "main_load_dotenv (gemini_load_dotenv ?w) = ?w"
    by (simp add: main_load_dotenv_def gemini_load_dotenv_def B(3))
  have p: "program nbc_lib ?E ?w = (Some IndexError, ?w2)"
    unfolding program_def main_def s by (subst n) (simp add: m)
  from m have c4: "fst (main_step nbc_lib ?E nbc_url ?w) = Some IndexError" by simp
  from p have c5: "fst (program nbc_lib ?E ?w) = Some IndexError" by simp
  from p w2 have c6: "fetched (snd (program nbc_lib ?E ?w)) = [nbc_url]" by simp
  show ?thesis by (intro conjI) (rule c1 c2 c3 c4 c5 c6)+
qed

section \<open>A missing API key\<close>

















end
